theory Spec2Isabelle
  imports Complex_Main "HOL-Library.Log_Nat" "HOL-Library.Multiset"
begin

section \<open>JavaScript numbers\<close>

text \<open>
  The program computes with JavaScript numbers: IEEE 754 binary64 values. A number is
  modelled as \<open>NaN\<close>, one of the two infinities, or a finite value given by the real
  number it denotes. Every arithmetic operation computes the exact result and rounds it
  to the nearest binary64 value, ties to even (\<open>rnd\<close>), as IEEE 754 prescribes. The model
  has a single zero: \<open>-0\<close> and \<open>+0\<close> are identified, which no comparison, no \<open>Map\<close> key
  lookup (SameValueZero) and no sum or quotient of this program distinguishes.
\<close>

datatype jsnum = NaN | NegInf | Fin real | PosInf

definition pow2 :: "int \<Rightarrow> real" where
  "pow2 e = (if 0 \<le> e then 2 ^ nat e else 1 / 2 ^ nat (- e))"

definition flog2 :: "real \<Rightarrow> int" where
  \<comment> \<open>for \<open>0 < x\<close>: the exponent \<open>k\<close> with \<open>2^k \<le> x < 2^(k+1)\<close>\<close>
  "flog2 x = (if 1 \<le> x then bitlen \<lfloor>x\<rfloor> - 1 else - bitlen (\<lceil>1 / x\<rceil> - 1))"

definition round_half_even :: "real \<Rightarrow> int" where
  "round_half_even q =
     (let f = \<lfloor>q\<rfloor>; d = q - of_int f
      in if d < 1 / 2 then f else if 1 / 2 < d then f + 1
         else if even f then f else f + 1)"

definition quantum :: "real \<Rightarrow> int" where
  \<comment> \<open>exponent of the spacing of binary64 values around \<open>x\<close>: 53 significant bits,
      and the fixed spacing \<open>2^-1074\<close> of the subnormal range\<close>
  "quantum x = max (flog2 \<bar>x\<bar> - 52) (- 1074)"

definition rnd :: "real \<Rightarrow> jsnum" where
  "rnd x =
     (if x = 0 then Fin 0
      else let e = quantum x;
               y = of_int (round_half_even (x / pow2 e)) * pow2 e
           in if pow2 1024 \<le> \<bar>y\<bar> then (if 0 < x then PosInf else NegInf) else Fin y)"

fun js_neg :: "jsnum \<Rightarrow> jsnum" where
  "js_neg NaN = NaN"
| "js_neg NegInf = PosInf"
| "js_neg PosInf = NegInf"
| "js_neg (Fin a) = Fin (- a)"

fun js_add :: "jsnum \<Rightarrow> jsnum \<Rightarrow> jsnum" where
  "js_add NaN _ = NaN"
| "js_add _ NaN = NaN"
| "js_add PosInf NegInf = NaN"
| "js_add NegInf PosInf = NaN"
| "js_add PosInf _ = PosInf"
| "js_add NegInf _ = NegInf"
| "js_add _ PosInf = PosInf"
| "js_add _ NegInf = NegInf"
| "js_add (Fin a) (Fin b) = rnd (a + b)"

definition js_sub :: "jsnum \<Rightarrow> jsnum \<Rightarrow> jsnum" where
  "js_sub a b = js_add a (js_neg b)"

fun js_sgn :: "jsnum \<Rightarrow> int" where
  "js_sgn NaN = 0"
| "js_sgn NegInf = - 1"
| "js_sgn PosInf = 1"
| "js_sgn (Fin a) = (if a < 0 then - 1 else if a = 0 then 0 else 1)"

definition signed_inf :: "int \<Rightarrow> jsnum" where
  "signed_inf s = (if s = 0 then NaN else if 0 < s then PosInf else NegInf)"

fun js_mul :: "jsnum \<Rightarrow> jsnum \<Rightarrow> jsnum" where
  "js_mul NaN _ = NaN"
| "js_mul _ NaN = NaN"
| "js_mul (Fin a) (Fin b) = rnd (a * b)"
| "js_mul a b = signed_inf (js_sgn a * js_sgn b)"

fun js_div :: "jsnum \<Rightarrow> jsnum \<Rightarrow> jsnum" where
  "js_div NaN _ = NaN"
| "js_div _ NaN = NaN"
| "js_div (Fin a) (Fin b) = (if b = 0 then signed_inf (js_sgn (Fin a)) else rnd (a / b))"
| "js_div (Fin a) _ = Fin 0"
| "js_div a (Fin b) = signed_inf (js_sgn a * (if b < 0 then - 1 else 1))"
| "js_div _ _ = NaN"

fun js_lt :: "jsnum \<Rightarrow> jsnum \<Rightarrow> bool" where
  "js_lt NaN _ = False"
| "js_lt _ NaN = False"
| "js_lt (Fin a) (Fin b) = (a < b)"
| "js_lt NegInf b = (b \<noteq> NegInf)"
| "js_lt a PosInf = (a \<noteq> PosInf)"
| "js_lt _ _ = False"

fun js_le :: "jsnum \<Rightarrow> jsnum \<Rightarrow> bool" where
  "js_le NaN _ = False"
| "js_le _ NaN = False"
| "js_le (Fin a) (Fin b) = (a \<le> b)"
| "js_le NegInf _ = True"
| "js_le _ PosInf = True"
| "js_le _ _ = False"

abbreviation js_gt :: "jsnum \<Rightarrow> jsnum \<Rightarrow> bool" where
  "js_gt a b \<equiv> js_lt b a"

abbreviation js_ge :: "jsnum \<Rightarrow> jsnum \<Rightarrow> bool" where
  "js_ge a b \<equiv> js_le b a"


section \<open>Strings to numbers: unary plus\<close>

text \<open>
  \<open>+d.max_temperature\<close> applies ToNumber to a string (ECMAScript StringToNumber): white
  space is trimmed; the empty string is \<open>0\<close>; a decimal literal (optional sign, digits,
  optional fraction, optional exponent, or \<open>Infinity\<close>) or an unsigned binary, octal or
  hexadecimal literal gives its value rounded to binary64; anything else is \<open>NaN\<close>.
  A string is the list of its code units; the white space of the model is the white space
  among the code units below 256.
\<close>

definition is_ws :: "char \<Rightarrow> bool" where
  "is_ws c = ((of_char c :: nat) \<in> {9, 10, 11, 12, 13, 32, 160})"

definition trim :: "string \<Rightarrow> string" where
  "trim s = rev (dropWhile is_ws (rev (dropWhile is_ws s)))"

definition digit_of :: "nat \<Rightarrow> char \<Rightarrow> nat option" where
  \<comment> \<open>the value of \<open>c\<close> as a digit of the given base\<close>
  "digit_of base c =
     (let n = (of_char c :: nat);
          v = (if 48 \<le> n \<and> n \<le> 57 then Some (n - 48)
               else if 97 \<le> n \<and> n \<le> 102 then Some (n - 87)
               else if 65 \<le> n \<and> n \<le> 70 then Some (n - 55)
               else None)
      in case v of None \<Rightarrow> None | Some d \<Rightarrow> if d < base then Some d else None)"

definition is_digit :: "char \<Rightarrow> bool" where
  "is_digit c = (digit_of 10 c \<noteq> None)"

definition digits_value :: "nat \<Rightarrow> string \<Rightarrow> nat option" where
  \<comment> \<open>a non-empty string of digits of the base, as a number\<close>
  "digits_value base s =
     (if s = [] then None
      else foldl (\<lambda>acc c. case (acc, digit_of base c) of
                              (Some a, Some d) \<Rightarrow> Some (base * a + d)
                            | _ \<Rightarrow> None) (Some 0) s)"

definition decimal_value :: "string \<Rightarrow> nat" where
  \<comment> \<open>the value of a (possibly empty) string of decimal digits\<close>
  "decimal_value s = (case digits_value 10 s of None \<Rightarrow> 0 | Some n \<Rightarrow> n)"

definition pow10 :: "int \<Rightarrow> real" where
  "pow10 e = (if 0 \<le> e then 10 ^ nat e else 1 / 10 ^ nat (- e))"

definition exponent_part :: "string \<Rightarrow> int option" where
  \<comment> \<open>an optional ExponentPart: empty, or \<open>e\<close>/\<open>E\<close>, an optional sign, and digits\<close>
  "exponent_part s =
     (case s of
        [] \<Rightarrow> Some 0
      | c # r \<Rightarrow>
          if c = CHR ''e'' \<or> c = CHR ''E'' then
            (case r of
               [] \<Rightarrow> None
             | d # r' \<Rightarrow>
                 if d = CHR ''+'' then map_option int (digits_value 10 r')
                 else if d = CHR ''-'' then map_option (\<lambda>n. - int n) (digits_value 10 r')
                 else map_option int (digits_value 10 r))
          else None)"

definition unsigned_decimal :: "string \<Rightarrow> real option" where
  \<comment> \<open>the mathematical value of a StrUnsignedDecimalLiteral other than \<open>Infinity\<close>\<close>
  "unsigned_decimal s =
     (let ip = takeWhile is_digit s; r1 = dropWhile is_digit s
      in case r1 of
           [] \<Rightarrow> if ip = [] then None else Some (real (decimal_value ip))
         | c # r2 \<Rightarrow>
             if c = CHR ''.'' then
               (let fp = takeWhile is_digit r2; r3 = dropWhile is_digit r2
                in if ip = [] \<and> fp = [] then None
                   else map_option
                          (\<lambda>e. (real (decimal_value ip)
                                 + real (decimal_value fp) / 10 ^ length fp) * pow10 e)
                          (exponent_part r3))
             else if ip = [] then None
             else map_option (\<lambda>e. real (decimal_value ip) * pow10 e) (exponent_part r1))"

definition str_decimal :: "string \<Rightarrow> jsnum" where
  "str_decimal s =
     (if s = ''Infinity'' then PosInf
      else case unsigned_decimal s of None \<Rightarrow> NaN | Some v \<Rightarrow> rnd v)"

definition non_decimal :: "string \<Rightarrow> jsnum option" where
  \<comment> \<open>\<open>0b\<close>, \<open>0o\<close> and \<open>0x\<close> literals; \<open>None\<close> when the string has no such prefix\<close>
  "non_decimal s =
     (case s of
        z # p # r \<Rightarrow>
          if z = CHR ''0'' \<and> (p = CHR ''x'' \<or> p = CHR ''X'') then
            Some (case digits_value 16 r of None \<Rightarrow> NaN | Some n \<Rightarrow> rnd (real n))
          else if z = CHR ''0'' \<and> (p = CHR ''o'' \<or> p = CHR ''O'') then
            Some (case digits_value 8 r of None \<Rightarrow> NaN | Some n \<Rightarrow> rnd (real n))
          else if z = CHR ''0'' \<and> (p = CHR ''b'' \<or> p = CHR ''B'') then
            Some (case digits_value 2 r of None \<Rightarrow> NaN | Some n \<Rightarrow> rnd (real n))
          else None
      | _ \<Rightarrow> None)"

definition to_number :: "string \<Rightarrow> jsnum" where
  "to_number str =
     (let s = trim str
      in if s = [] then Fin 0
         else case non_decimal s of
                Some v \<Rightarrow> v
              | None \<Rightarrow>
                  (case s of
                     c # r \<Rightarrow>
                       if c = CHR ''+'' then str_decimal r
                       else if c = CHR ''-'' then js_neg (str_decimal r)
                       else str_decimal s
                   | [] \<Rightarrow> Fin 0))"

section \<open>Dates\<close>

text \<open>
  \<open>new Date(s)\<close> holds a time value, the milliseconds since the epoch in UTC, or is an
  invalid date. The date-only forms \<open>YYYY\<close>, \<open>YYYY-MM\<close> and \<open>YYYY-MM-DD\<close> of the
  ECMAScript date-time string format are parsed as UTC midnight. For every other string
  (date-time forms, expanded years, out-of-range fields, anything else) ECMAScript lets
  the engine fall back to its own formats: that part of \<open>Date.parse\<close> is a field of the
  host, as is the local time zone adjustment, which \<open>getFullYear\<close>, \<open>getMonth\<close> and
  \<open>getDate\<close> add to the time value.
\<close>

record js_host =
  localTZA :: "int \<Rightarrow> int"
  fallbackDateParse :: "string \<Rightarrow> int option"

definition msPerDay :: int where
  "msPerDay = 86400000"

definition is_leap :: "int \<Rightarrow> bool" where
  "is_leap y = (y mod 4 = 0 \<and> (y mod 100 \<noteq> 0 \<or> y mod 400 = 0))"

definition days_in_month :: "int \<Rightarrow> int \<Rightarrow> int" where
  "days_in_month y m =
     (if m = 2 then (if is_leap y then 29 else 28)
      else if m = 4 \<or> m = 6 \<or> m = 9 \<or> m = 11 then 30 else 31)"

definition days_from_civil :: "int \<Rightarrow> int \<Rightarrow> int \<Rightarrow> int" where
  \<comment> \<open>MakeDay: the day number of year \<open>y\<close>, month \<open>m\<close> (1 to 12), day \<open>d\<close>; day 0 is
      1970-01-01\<close>
  "days_from_civil y m d =
     (let y' = (if m \<le> 2 then y - 1 else y);
          era = y' div 400;
          yoe = y' - era * 400;
          doy = (153 * (if 2 < m then m - 3 else m + 9) + 2) div 5 + d - 1;
          doe = yoe * 365 + yoe div 4 - yoe div 100 + doy
      in era * 146097 + doe - 719468)"

definition civil_from_days :: "int \<Rightarrow> int \<times> int \<times> int" where
  \<comment> \<open>the year, the month (1 to 12) and the day of the month of a day number\<close>
  "civil_from_days z =
     (let z' = z + 719468;
          era = z' div 146097;
          doe = z' - era * 146097;
          yoe = (doe - doe div 1460 + doe div 36524 - doe div 146096) div 365;
          doy = doe - (365 * yoe + yoe div 4 - yoe div 100);
          mp = (5 * doy + 2) div 153;
          d = doy - (153 * mp + 2) div 5 + 1;
          m = (if mp < 10 then mp + 3 else mp - 9)
      in (if m \<le> 2 then yoe + era * 400 + 1 else yoe + era * 400, m, d))"

definition two_digits :: "char \<Rightarrow> char \<Rightarrow> int option" where
  "two_digits a b = map_option int (digits_value 10 [a, b])"

definition iso_date_only :: "string \<Rightarrow> (int \<times> int \<times> int) option" where
  \<comment> \<open>the year, month and day of a string in a date-only form, \<open>None\<close> for any other
      string\<close>
  "iso_date_only s =
     (if length s \<in> {4, 7, 10} then
        (case digits_value 10 (take 4 s) of
           None \<Rightarrow> None
         | Some y \<Rightarrow>
             (case drop 4 s of
                [] \<Rightarrow> Some (int y, 1, 1)
              | [h, m1, m2] \<Rightarrow>
                  (case two_digits m1 m2 of
                     None \<Rightarrow> None
                   | Some m \<Rightarrow>
                       if h = CHR ''-'' \<and> 1 \<le> m \<and> m \<le> 12 then Some (int y, m, 1) else None)
              | [h, m1, m2, h', d1, d2] \<Rightarrow>
                  (case (two_digits m1 m2, two_digits d1 d2) of
                     (Some m, Some d) \<Rightarrow>
                       if h = CHR ''-'' \<and> h' = CHR ''-'' \<and> 1 \<le> m \<and> m \<le> 12
                          \<and> 1 \<le> d \<and> d \<le> days_in_month (int y) m
                       then Some (int y, m, d) else None
                   | _ \<Rightarrow> None)
              | _ \<Rightarrow> None))
      else None)"

definition time_clip :: "int \<Rightarrow> int option" where
  "time_clip t = (if \<bar>t\<bar> \<le> 8640000000000000 then Some t else None)"

definition date_parse :: "js_host \<Rightarrow> string \<Rightarrow> int option" where
  \<comment> \<open>the time value of \<open>new Date(s)\<close>; \<open>None\<close> is the invalid date\<close>
  "date_parse host s =
     (case iso_date_only s of
        Some (y, m, d) \<Rightarrow> Some (days_from_civil y m d * msPerDay)
      | None \<Rightarrow> (case fallbackDateParse host s of None \<Rightarrow> None | Some t \<Rightarrow> time_clip t))"

definition local_civil :: "js_host \<Rightarrow> int \<Rightarrow> int \<times> int \<times> int" where
  "local_civil host t = civil_from_days ((t + localTZA host t) div msPerDay)"

text \<open>
  A year, a month index or a day of the month is an integer or \<open>NaN\<close>: the getters of
  an invalid date return \<open>NaN\<close> (\<open>None\<close> here).
\<close>

definition getFullYear :: "js_host \<Rightarrow> int option \<Rightarrow> int option" where
  "getFullYear host tv = map_option (\<lambda>t. fst (local_civil host t)) tv"

definition getMonth :: "js_host \<Rightarrow> int option \<Rightarrow> int option" where
  "getMonth host tv = map_option (\<lambda>t. fst (snd (local_civil host t)) - 1) tv"

definition getDate :: "js_host \<Rightarrow> int option \<Rightarrow> int option" where
  "getDate host tv = map_option (\<lambda>t. snd (snd (local_civil host t))) tv"


section \<open>Configuration and records\<close>

record config =
  tempRange_min :: jsnum
  tempRange_max :: jsnum
  yearRange_start :: int
  yearRange_end :: int

definition CONFIG :: config where
  "CONFIG = \<lparr>tempRange_min = Fin 0, tempRange_max = Fin 40,
             yearRange_start = 2008, yearRange_end = 2017\<rparr>"

definition MONTHS :: "string list" where
  "MONTHS = [''January'', ''February'', ''March'', ''April'', ''May'', ''June'', ''July'',
             ''August'', ''September'', ''October'', ''November'', ''December'']"

text \<open>A row of the CSV file, as \<open>d3.csv\<close> delivers it: every field is a string.\<close>

record csv_row =
  csv_date :: string
  max_temperature :: string
  min_temperature :: string

text \<open>
  The objects built by \<open>parseTemperatureData\<close> and by \<open>aggregateMonthlyData\<close> both
  have a \<open>year\<close> and a \<open>month\<close>; the two record types extend a common part.
\<close>

record year_month =
  year :: "int option"
  month :: "int option"

record temperature_record = year_month +
  date :: "int option"
  maxTemperature :: jsnum
  minTemperature :: jsnum
  day :: "int option"

record monthly_summary = year_month +
  monthName :: string
  maxTemp :: "jsnum option"
  minTemp :: "jsnum option"
  avgMax :: "jsnum option"
  avgMin :: "jsnum option"
  dailyData :: "temperature_record list"

section \<open>parseTemperatureData\<close>

definition parseTemperatureData :: "js_host \<Rightarrow> csv_row list \<Rightarrow> temperature_record list" where
  "parseTemperatureData host rawData =
     map (\<lambda>d. \<lparr>year = getFullYear host (date_parse host (csv_date d)),
                month = getMonth host (date_parse host (csv_date d)),
                date = date_parse host (csv_date d),
                maxTemperature = to_number (max_temperature d),
                minTemperature = to_number (min_temperature d),
                day = getDate host (date_parse host (csv_date d))\<rparr>) rawData"

section \<open>filterDataByYearRange\<close>

text \<open>
  Comparisons of a year (an integer or \<open>NaN\<close>) with a bound: a comparison with \<open>NaN\<close> is
  false.
\<close>

definition num_ge :: "int option \<Rightarrow> int \<Rightarrow> bool" where
  "num_ge a b = (case a of None \<Rightarrow> False | Some x \<Rightarrow> b \<le> x)"

definition num_le :: "int option \<Rightarrow> int \<Rightarrow> bool" where
  "num_le a b = (case a of None \<Rightarrow> False | Some x \<Rightarrow> x \<le> b)"

definition num_minus :: "int option \<Rightarrow> int option \<Rightarrow> int option" where
  \<comment> \<open>\<open>a - b\<close> on integers; \<open>NaN\<close> when either is \<open>NaN\<close>\<close>
  "num_minus a b = (case (a, b) of (Some x, Some y) \<Rightarrow> Some (x - y) | _ \<Rightarrow> None)"

definition set_values :: "'a list \<Rightarrow> 'a list" where
  \<comment> \<open>\<open>[...new Set(xs)]\<close>: the distinct values in the order of their first occurrence\<close>
  "set_values xs = foldl (\<lambda>acc x. if x \<in> set acc then acc else acc @ [x]) [] xs"

text \<open>
  \<open>Array.prototype.sort\<close> with a comparison function is a stable sort; an element \<open>a\<close>
  goes after \<open>b\<close> when the comparison of \<open>a\<close> with \<open>b\<close> is positive, and a \<open>NaN\<close>
  comparison counts as \<open>0\<close>. A stable insertion sort models it (when the comparison is
  not a consistent order, ECMAScript leaves the resulting order to the engine).
\<close>

definition comes_after :: "int option \<Rightarrow> bool" where
  "comes_after v = (case v of None \<Rightarrow> False | Some n \<Rightarrow> 0 < n)"

fun sort_insert :: "('a \<Rightarrow> 'a \<Rightarrow> int option) \<Rightarrow> 'a \<Rightarrow> 'a list \<Rightarrow> 'a list" where
  "sort_insert cmp x [] = [x]"
| "sort_insert cmp x (y # ys) =
     (if comes_after (cmp x y) then y # sort_insert cmp x ys else x # y # ys)"

definition js_sort :: "('a \<Rightarrow> 'a \<Rightarrow> int option) \<Rightarrow> 'a list \<Rightarrow> 'a list" where
  "js_sort cmp xs = foldr (sort_insert cmp) xs []"

record filtered =
  filteredData :: "temperature_record list"
  years :: "int option list"

definition filterDataByYearRange :: "config \<Rightarrow> temperature_record list \<Rightarrow> filtered" where
  "filterDataByYearRange cfg data =
     (let filteredData =
            filter (\<lambda>d. num_ge (year d) (yearRange_start cfg)
                        \<and> num_le (year d) (yearRange_end cfg)) data;
          years = js_sort (\<lambda>a b. num_minus a b) (set_values (map year filteredData))
      in \<lparr>filteredData = filteredData, years = years\<rparr>)"

section \<open>aggregateMonthlyData\<close>

subsection \<open>The functions of d3-array\<close>

text \<open>
  \<open>d3.group(data, key1, key2)\<close> builds a map of maps of arrays: the values under each key
  in input order, the keys in the order of their first occurrence, keys compared as a
  \<open>Map\<close> compares them (\<open>NaN\<close> is a key like any other).
\<close>

fun group_push :: "'k \<Rightarrow> 'v \<Rightarrow> ('k \<times> 'v list) list \<Rightarrow> ('k \<times> 'v list) list" where
  "group_push k v [] = [(k, [v])]"
| "group_push k v ((k', vs) # g) =
     (if k' = k then (k', vs @ [v]) # g else (k', vs) # group_push k v g)"

definition group_by :: "('v \<Rightarrow> 'k) \<Rightarrow> 'v list \<Rightarrow> ('k \<times> 'v list) list" where
  "group_by keyof vals = foldl (\<lambda>g v. group_push (keyof v) v g) [] vals"

definition d3_group ::
  "'v list \<Rightarrow> ('v \<Rightarrow> 'k) \<Rightarrow> ('v \<Rightarrow> 'l) \<Rightarrow> ('k \<times> ('l \<times> 'v list) list) list" where
  "d3_group vals key1 key2 = map (\<lambda>(k, vs). (k, group_by key2 vs)) (group_by key1 vals)"

definition group_get ::
  "('k \<times> ('l \<times> 'v list) list) list \<Rightarrow> 'k \<Rightarrow> 'l \<Rightarrow> 'v list" where
  \<comment> \<open>\<open>groupedData.get(k)?.get(l) || []\<close>\<close>
  "group_get g k l =
     (case map_of g k of
        None \<Rightarrow> []
      | Some g' \<Rightarrow> (case map_of g' l of None \<Rightarrow> [] | Some vs \<Rightarrow> vs))"

text \<open>
  \<open>d3.max\<close>, \<open>d3.min\<close> and \<open>d3.mean\<close> skip the values that are not comparable with
  themselves (\<open>NaN\<close>) and return \<open>undefined\<close> (\<open>None\<close>) when nothing is left. The mean
  adds the values from left to right, starting from \<open>0\<close>, and divides by their count.
\<close>

definition d3_max :: "'a list \<Rightarrow> ('a \<Rightarrow> jsnum) \<Rightarrow> jsnum option" where
  "d3_max vals valueof =
     foldl (\<lambda>mx v. let val = valueof v
                    in case mx of
                         None \<Rightarrow> if js_ge val val then Some val else None
                       | Some m \<Rightarrow> if js_lt m val then Some val else Some m) None vals"

definition d3_min :: "'a list \<Rightarrow> ('a \<Rightarrow> jsnum) \<Rightarrow> jsnum option" where
  "d3_min vals valueof =
     foldl (\<lambda>mn v. let val = valueof v
                    in case mn of
                         None \<Rightarrow> if js_ge val val then Some val else None
                       | Some m \<Rightarrow> if js_gt m val then Some val else Some m) None vals"

definition d3_mean :: "'a list \<Rightarrow> ('a \<Rightarrow> jsnum) \<Rightarrow> jsnum option" where
  "d3_mean vals valueof =
     (let (count, sum) =
            foldl (\<lambda>(count, sum) v. let val = valueof v
                                     in if js_ge val val then (count + 1, js_add sum val)
                                        else (count, sum)) (0 :: nat, Fin 0) vals
      in if count \<noteq> 0 then Some (js_div sum (Fin (real count))) else None)"

subsection \<open>The loop over years and months\<close>

text \<open>
  \<open>monthRecords.sort(...)\<close> sorts in place the array that \<open>groupedData\<close> holds, and the
  pushed object keeps that same array as its \<open>dailyData\<close>. The arrays are therefore
  kept in a store: \<open>Data\<close> is the array passed as \<open>data\<close>, which the function only
  reads, and \<open>Group y m\<close> is the array that \<open>d3.group\<close> creates for year \<open>y\<close> and month
  \<open>m\<close>. The statistics of an object are computed before the sort, in the order of the
  object literal; its \<open>dailyData\<close> is read from the store when the function returns.
\<close>

datatype array_id = Data | Group "int option" "int option"

type_synonym store = "array_id \<Rightarrow> temperature_record list"

record pending_summary =
  p_year :: "int option"
  p_month :: int
  p_monthName :: string
  p_maxTemp :: "jsnum option"
  p_minTemp :: "jsnum option"
  p_avgMax :: "jsnum option"
  p_avgMin :: "jsnum option"

definition load_groups :: "store \<Rightarrow> store" where
  \<comment> \<open>\<open>d3.group(data, d => d.year, d => d.month)\<close>: fresh arrays for the groups\<close>
  "load_groups st =
     (\<lambda>a. case a of
             Data \<Rightarrow> st Data
           | Group y m \<Rightarrow> group_get (d3_group (st Data) year month) y m)"

definition month_step ::
  "int option \<Rightarrow> store \<times> pending_summary list \<Rightarrow> nat \<times> string
     \<Rightarrow> store \<times> pending_summary list" where
  "month_step y acc mi =
     (let (st, monthlyData) = acc;
          (monthIndex, name) = mi;
          monthRecords = st (Group y (Some (int monthIndex)))
      in if 0 < length monthRecords then
           (st(Group y (Some (int monthIndex)) :=
                 js_sort (\<lambda>a b. num_minus (day a) (day b)) monthRecords),
            monthlyData @
              [\<lparr>p_year = y, p_month = int monthIndex, p_monthName = name,
                p_maxTemp = d3_max monthRecords maxTemperature,
                p_minTemp = d3_min monthRecords minTemperature,
                p_avgMax = d3_mean monthRecords maxTemperature,
                p_avgMin = d3_mean monthRecords minTemperature\<rparr>])
         else (st, monthlyData))"

definition year_step ::
  "store \<times> pending_summary list \<Rightarrow> int option \<Rightarrow> store \<times> pending_summary list" where
  "year_step acc y = foldl (month_step y) acc (enumerate 0 MONTHS)"

definition finish :: "store \<Rightarrow> pending_summary \<Rightarrow> monthly_summary" where
  "finish st p =
     \<lparr>year = p_year p, month = Some (p_month p), monthName = p_monthName p,
      maxTemp = p_maxTemp p, minTemp = p_minTemp p,
      avgMax = p_avgMax p, avgMin = p_avgMin p,
      dailyData = st (Group (p_year p) (Some (p_month p)))\<rparr>"

definition aggregate_run :: "store \<Rightarrow> int option list \<Rightarrow> monthly_summary list \<times> store" where
  \<comment> \<open>a call of \<open>aggregateMonthlyData\<close> in a store: its result and the store it leaves\<close>
  "aggregate_run st ys =
     (let (st', monthlyData) = foldl year_step (load_groups st, []) ys
      in (map (finish st') monthlyData, st'))"

definition aggregateMonthlyData ::
  "temperature_record list \<Rightarrow> int option list \<Rightarrow> monthly_summary list" where
  "aggregateMonthlyData data ys = fst (aggregate_run (\<lambda>_. data) ys)"


section \<open>createColorScale\<close>

text \<open>
  The scale is built from d3-scale and d3-interpolate: \<open>d3.scaleSequential()\<close> with the
  domain of the configuration and the interpolator \<open>d3.interpolateYlOrRd\<close>, the uniform
  B-spline through the nine colours of the scheme. The sequential scale is left at its
  default, without clamping. The spline itself maps every \<open>t \<le> 0\<close> to \<open>0\<close> and every
  \<open>t \<ge> 1\<close> to \<open>1\<close>. A colour is the triple of its red, green and blue channels, which
  d3 prints as \<open>rgb(r, g, b)\<close>.
\<close>

definition YlOrRd :: "(int \<times> int \<times> int) list" where
  "YlOrRd = [(255, 255, 204), (255, 237, 160), (254, 217, 118), (254, 178, 76),
             (253, 141, 60), (252, 78, 42), (227, 26, 28), (189, 0, 38), (128, 0, 38)]"

definition basis :: "jsnum \<Rightarrow> jsnum \<Rightarrow> jsnum \<Rightarrow> jsnum \<Rightarrow> jsnum \<Rightarrow> jsnum" where
  "basis t1 v0 v1 v2 v3 =
     (let t2 = js_mul t1 t1; t3 = js_mul t2 t1
      in js_div
           (js_add
              (js_add
                 (js_add
                    (js_mul (js_sub (js_add (js_sub (Fin 1) (js_mul (Fin 3) t1))
                                            (js_mul (Fin 3) t2)) t3) v0)
                    (js_mul (js_add (js_sub (Fin 4) (js_mul (Fin 6) t2))
                                    (js_mul (Fin 3) t3)) v1))
                 (js_mul (js_sub (js_add (js_add (Fin 1) (js_mul (Fin 3) t1))
                                         (js_mul (Fin 3) t2)) (js_mul (Fin 3) t3)) v2))
              (js_mul t3 v3))
           (Fin 6))"

definition js_floor :: "jsnum \<Rightarrow> jsnum" where
  "js_floor x = (case x of Fin a \<Rightarrow> Fin (of_int \<lfloor>a\<rfloor>) | _ \<Rightarrow> x)"

definition element :: "int list \<Rightarrow> jsnum \<Rightarrow> jsnum" where
  \<comment> \<open>\<open>values[i]\<close> as a number: an index that is no element of the array reads
      \<open>undefined\<close>, which arithmetic turns into \<open>NaN\<close>\<close>
  "element vals i =
     (case i of
        Fin a \<Rightarrow> if a = of_int \<lfloor>a\<rfloor> \<and> 0 \<le> a \<and> nat \<lfloor>a\<rfloor> < length vals
                 then Fin (of_int (vals ! nat \<lfloor>a\<rfloor>)) else NaN
      | _ \<Rightarrow> NaN)"

definition basis_spline :: "int list \<Rightarrow> jsnum \<Rightarrow> jsnum" where
  "basis_spline vals t =
     (let n = Fin (of_int (int (length vals) - 1));
          (t', i) = (if js_le t (Fin 0) then (Fin 0, Fin 0)
                     else if js_ge t (Fin 1) then (Fin 1, js_sub n (Fin 1))
                     else (t, js_floor (js_mul t n)));
          v1 = element vals i;
          v2 = element vals (js_add i (Fin 1));
          v0 = (if js_gt i (Fin 0) then element vals (js_sub i (Fin 1))
                else js_sub (js_mul (Fin 2) v1) v2);
          v3 = (if js_lt i (js_sub n (Fin 1)) then element vals (js_add i (Fin 2))
                else js_sub (js_mul (Fin 2) v2) v1)
      in basis (js_mul (js_sub t' (js_div i n)) n) v0 v1 v2 v3)"

definition clampi :: "jsnum \<Rightarrow> int" where
  \<comment> \<open>\<open>Math.max(0, Math.min(255, Math.round(value) || 0))\<close>\<close>
  "clampi v =
     (case v of
        NaN \<Rightarrow> 0
      | NegInf \<Rightarrow> 0
      | PosInf \<Rightarrow> 255
      | Fin a \<Rightarrow> max 0 (min 255 \<lfloor>a + 1 / 2\<rfloor>))"

definition interpolateRgbBasis :: "(int \<times> int \<times> int) list \<Rightarrow> jsnum \<Rightarrow> int \<times> int \<times> int" where
  "interpolateRgbBasis colors t =
     (clampi (basis_spline (map fst colors) t),
      clampi (basis_spline (map (fst \<circ> snd) colors) t),
      clampi (basis_spline (map (snd \<circ> snd) colors) t))"

definition interpolateYlOrRd :: "jsnum \<Rightarrow> int \<times> int \<times> int" where
  "interpolateYlOrRd = interpolateRgbBasis YlOrRd"

definition strict_eq :: "jsnum \<Rightarrow> jsnum \<Rightarrow> bool" where
  \<comment> \<open>\<open>===\<close> on numbers: \<open>NaN\<close> equals nothing\<close>
  "strict_eq a b = (a \<noteq> NaN \<and> a = b)"

definition scaleSequential ::
  "jsnum \<Rightarrow> jsnum \<Rightarrow> (jsnum \<Rightarrow> 'c) \<Rightarrow> jsnum option \<Rightarrow> 'c option" where
  \<comment> \<open>the scale with domain \<open>[x0, x1]\<close> applied to \<open>x\<close>; \<open>undefined\<close> and \<open>NaN\<close> map to
      the unknown value, \<open>undefined\<close>\<close>
  "scaleSequential x0 x1 interpolator x =
     (let k10 = (if strict_eq x0 x1 then Fin 0 else js_div (Fin 1) (js_sub x1 x0))
      in case x of
           None \<Rightarrow> None
         | Some v \<Rightarrow>
             if v = NaN then None
             else Some (interpolator
                          (if strict_eq k10 (Fin 0) then Fin (1 / 2)
                           else js_mul (js_sub v x0) k10)))"

definition createColorScale :: "config \<Rightarrow> jsnum option \<Rightarrow> (int \<times> int \<times> int) option" where
  "createColorScale cfg =
     scaleSequential (tempRange_min cfg) (tempRange_max cfg) interpolateYlOrRd"

section \<open>Notions used in the statements\<close>

text \<open>
  A host for the examples: local time is UTC, and no string outside the date-only forms
  is accepted as a date.
\<close>

definition utc_host :: js_host where
  "utc_host = \<lparr>localTZA = (\<lambda>_. 0), fallbackDateParse = (\<lambda>_. None)\<rparr>"


definition bad_row :: csv_row where
  "bad_row = \<lparr>csv_date = ''not a date'', max_temperature = '''', min_temperature = ''abc''\<rparr>"

definition january_rows :: "csv_row list" where
  "january_rows =
     [\<lparr>csv_date = ''2015-01-15'', max_temperature = ''20.0'', min_temperature = ''10.0''\<rparr>,
      \<lparr>csv_date = ''2015-01-16'', max_temperature = ''22.0'', min_temperature = ''11.0''\<rparr>]"

definition sample_records :: "temperature_record list" where
  "sample_records =
     [\<lparr>year = Some 2015, month = Some 0, date = Some 1421366400000,
       maxTemperature = Fin 22, minTemperature = Fin 11, day = Some 16\<rparr>,
      \<lparr>year = None, month = None, date = None,
       maxTemperature = Fin 1, minTemperature = NaN, day = None\<rparr>,
      \<lparr>year = Some 2009, month = Some 6, date = Some 1246406400000,
       maxTemperature = Fin 31, minTemperature = Fin 27, day = Some 1\<rparr>,
      \<lparr>year = Some 2015, month = Some 0, date = Some 1421280000000,
       maxTemperature = Fin 20, minTemperature = Fin 10, day = Some 15\<rparr>,
      \<lparr>year = Some 2007, month = Some 11, date = Some 1199059200000,
       maxTemperature = Fin 18, minTemperature = Fin 12, day = Some 31\<rparr>]"

text \<open>The order of the numbers that are not \<open>NaN\<close>, and a sort key that agrees with it.\<close>

definition num_lt :: "int option \<Rightarrow> int option \<Rightarrow> bool" where
  "num_lt a b = (case (a, b) of (Some x, Some y) \<Rightarrow> x < y | _ \<Rightarrow> False)"

definition num_key :: "int option \<Rightarrow> int" where
  "num_key a = (case a of None \<Rightarrow> 0 | Some x \<Rightarrow> x)"

definition in_range :: "config \<Rightarrow> temperature_record \<Rightarrow> bool" where
  "in_range cfg d = (num_ge (year d) (yearRange_start cfg) \<and> num_le (year d) (yearRange_end cfg))"

text \<open>The records of a year and a month, in input order.\<close>

definition records_of ::
  "temperature_record list \<Rightarrow> int option \<Rightarrow> int option \<Rightarrow> temperature_record list" where
  "records_of data y m = filter (\<lambda>d. year d = y \<and> month d = m) data"

text \<open>
  What one visit of the loop body pushes for a year, a month (its index and name) and
  the records found for them: nothing for no records, else one object. \<open>pending_cell\<close>
  is the object before its \<open>dailyData\<close> is read from the store, \<open>month_cell\<close> the object
  with the sorted records as \<open>dailyData\<close>.
\<close>

definition pending_cell ::
  "int option \<Rightarrow> nat \<times> string \<Rightarrow> temperature_record list \<Rightarrow> pending_summary list" where
  "pending_cell y mi recs =
     (if recs = [] then []
      else [\<lparr>p_year = y, p_month = int (fst mi), p_monthName = snd mi,
             p_maxTemp = d3_max recs maxTemperature,
             p_minTemp = d3_min recs minTemperature,
             p_avgMax = d3_mean recs maxTemperature,
             p_avgMin = d3_mean recs minTemperature\<rparr>])"

definition month_cell ::
  "int option \<Rightarrow> nat \<times> string \<Rightarrow> temperature_record list \<Rightarrow> monthly_summary list" where
  "month_cell y mi recs =
     (if recs = [] then []
      else [\<lparr>year = y, month = Some (int (fst mi)), monthName = snd mi,
             maxTemp = d3_max recs maxTemperature,
             minTemp = d3_min recs minTemperature,
             avgMax = d3_mean recs maxTemperature,
             avgMin = d3_mean recs minTemperature,
             dailyData = js_sort (\<lambda>a b. num_minus (day a) (day b)) recs\<rparr>])"

definition sorted_store :: "store \<Rightarrow> array_id set \<Rightarrow> store" where
  \<comment> \<open>the store after the arrays in \<open>A\<close> have been sorted by day\<close>
  "sorted_store st A =
     (\<lambda>a. if a \<in> A then js_sort (\<lambda>a b. num_minus (day a) (day b)) (st a) else st a)"

definition month_ids :: "int option \<Rightarrow> array_id set" where
  "month_ids y = (\<lambda>mi. Group y (Some (int (fst mi)))) ` set (enumerate 0 MONTHS)"

text \<open>
  The value that rounding to nearest, ties to even, gives before the overflow test:
  \<open>rnd x\<close> is \<open>rval x\<close> unless that reaches \<open>2^1024\<close>.
\<close>

definition rval :: "real \<Rightarrow> real" where
  "rval x = of_int (round_half_even (x / pow2 (quantum x))) * pow2 (quantum x)"

text \<open>The object of a year and a month with records, and the test that there are some.\<close>

definition cell_of ::
  "int option \<Rightarrow> nat \<times> string \<Rightarrow> temperature_record list \<Rightarrow> monthly_summary" where
  "cell_of y mi recs =
     \<lparr>year = y, month = Some (int (fst mi)), monthName = snd mi,
      maxTemp = d3_max recs maxTemperature,
      minTemp = d3_min recs minTemperature,
      avgMax = d3_mean recs maxTemperature,
      avgMin = d3_mean recs minTemperature,
      dailyData = js_sort (\<lambda>a b. num_minus (day a) (day b)) recs\<rparr>"

definition nonempty_cell :: "temperature_record list \<Rightarrow> int option \<times> nat \<times> string \<Rightarrow> bool" where
  "nonempty_cell data p = (records_of data (fst p) (Some (int (fst (snd p)))) \<noteq> [])"

text \<open>Year-major, month-minor order, and the order by day.\<close>

definition year_month_lt :: "'a year_month_scheme \<Rightarrow> 'b year_month_scheme \<Rightarrow> bool" where
  "year_month_lt s t =
     (num_lt (year s) (year t) \<or> (year s = year t \<and> num_lt (month s) (month t)))"

definition day_le :: "temperature_record \<Rightarrow> temperature_record \<Rightarrow> bool" where
  "day_le a b = (case (day a, day b) of (Some x, Some y) \<Rightarrow> x \<le> y | _ \<Rightarrow> False)"


definition day15 :: temperature_record where
  "day15 = \<lparr>year = Some 2015, month = Some 0, date = Some 1421280000000,
             maxTemperature = Fin 20, minTemperature = Fin 10, day = Some 15\<rparr>"

definition day16 :: temperature_record where
  "day16 = \<lparr>year = Some 2015, month = Some 0, date = Some 1421366400000,
             maxTemperature = Fin 22, minTemperature = Fin 11, day = Some 16\<rparr>"

text \<open>
  A record with finite temperatures whose minimum is at most its maximum; three records
  with minimum \<open>-0.1\<close> and maximum \<open>0.1\<close> (the binary64 values nearest to them); and a
  store in which earlier calls have left arrays behind.
\<close>

definition finite_ordered :: "temperature_record \<Rightarrow> bool" where
  "finite_ordered d =
     (case (minTemperature d, maxTemperature d) of (Fin a, Fin b) \<Rightarrow> a \<le> b | _ \<Rightarrow> False)"

definition tenth_records :: "temperature_record list" where
  "tenth_records =
     [\<lparr>year = Some 2015, month = Some 0, date = Some 1421280000000,
       maxTemperature = Fin (3602879701896397 / 36028797018963968),
       minTemperature = Fin (- (3602879701896397 / 36028797018963968)), day = Some 15\<rparr>,
      \<lparr>year = Some 2015, month = Some 0, date = Some 1421366400000,
       maxTemperature = Fin (3602879701896397 / 36028797018963968),
       minTemperature = Fin (- (3602879701896397 / 36028797018963968)), day = Some 16\<rparr>,
      \<lparr>year = Some 2015, month = Some 0, date = Some 1421452800000,
       maxTemperature = Fin (3602879701896397 / 36028797018963968),
       minTemperature = Fin (- (3602879701896397 / 36028797018963968)), day = Some 17\<rparr>]"

definition stale_store :: store where
  "stale_store = (\<lambda>a. case a of Data \<Rightarrow> tenth_records | Group y m \<Rightarrow> sample_records)"

section \<open>Rounding to binary64\<close>

lemma pow2_powi: "pow2 e = 2 powi e"
  by (simp add: pow2_def power_int_def power_one_over inverse_eq_divide)

lemma pow2_pos [simp]: "0 < pow2 e"
  by (simp add: pow2_powi)

lemma pow2_nonneg [simp]: "0 \<le> pow2 e"
  using pow2_pos [of e] by (simp only: less_imp_le)

lemma pow2_neq_0 [simp]: "pow2 e \<noteq> 0"
  using pow2_pos [of e] by (simp only: less_le) simp

lemma pow2_add: "pow2 (a + b) = pow2 a * pow2 b"
  by (simp add: pow2_powi power_int_add)

lemma pow2_le_iff: "pow2 a \<le> pow2 b \<longleftrightarrow> a \<le> b"
proof
  assume "pow2 a \<le> pow2 b"
  show "a \<le> b"
  proof (rule ccontr)
    assume "\<not> a \<le> b"
    then have "pow2 b < pow2 a"
      unfolding pow2_powi by (intro power_int_strict_increasing) auto
    with \<open>pow2 a \<le> pow2 b\<close> show False by simp
  qed
next
  assume "a \<le> b"
  then show "pow2 a \<le> pow2 b"
    unfolding pow2_powi by (intro power_int_increasing) auto
qed

lemma pow2_less_iff: "pow2 a < pow2 b \<longleftrightarrow> a < b"
  using pow2_le_iff [of b a] by (auto simp: not_le [symmetric])

lemma pow2_nat: "0 \<le> e \<Longrightarrow> pow2 e = of_int (2 ^ nat e)"
  by (simp add: pow2_def)

lemma pow2_neg: "pow2 (- e) = 1 / pow2 e"
  by (simp add: pow2_powi power_int_minus inverse_eq_divide)

lemma flog2_bounds:
  assumes "0 < x"
  shows "pow2 (flog2 x) \<le> x \<and> x < pow2 (flog2 x + 1)"
proof (cases "1 \<le> x")
  case True
  define n where "n = \<lfloor>x\<rfloor>"
  have n: "1 \<le> n" using True by (simp add: n_def le_floor_iff)
  then have b: "2 ^ nat (bitlen n - 1) \<le> n" "n < 2 ^ nat (bitlen n)"
    using bitlen_bounds [of n] by auto
  have bl: "1 \<le> bitlen n" using n by (simp add: bitlen_alt_def)
  have f: "flog2 x = bitlen n - 1" using True by (simp add: flog2_def n_def)
  have "pow2 (bitlen n - 1) = of_int (2 ^ nat (bitlen n - 1))"
    using bl by (intro pow2_nat) simp
  also have "\<dots> \<le> of_int n" using b(1) by (simp only: of_int_le_iff)
  also have "\<dots> \<le> x" by (simp add: n_def)
  finally have lo: "pow2 (flog2 x) \<le> x" by (simp add: f)
  have "x < of_int (n + 1)" by (simp add: n_def)
  also have "\<dots> \<le> of_int (2 ^ nat (bitlen n))"
    using b(2) by (simp only: of_int_le_iff)
  also have "\<dots> = pow2 (bitlen n)"
    using bl by (intro pow2_nat [symmetric]) simp
  finally have "x < pow2 (flog2 x + 1)" by (simp add: f)
  with lo show ?thesis by simp
next
  case False
  define y where "y = 1 / x"
  define m where "m = \<lceil>y\<rceil> - 1"
  have y1: "1 < y" using False assms by (simp add: y_def)
  have x: "x = 1 / y" using assms by (simp add: y_def)
  have ypos: "0 < y" using y1 by simp
  have m: "1 \<le> m" using y1 by (simp add: m_def less_ceiling_iff)
  have my: "of_int m < y" "y \<le> of_int (m + 1)"
    using ceiling_correct [of y] by (simp_all add: m_def)
  have b: "2 ^ nat (bitlen m - 1) \<le> m" "m < 2 ^ nat (bitlen m)"
    using bitlen_bounds [of m] m by auto
  have bl: "1 \<le> bitlen m" using m by (simp add: bitlen_alt_def)
  have f: "flog2 x = - bitlen m" using False by (simp add: flog2_def m_def y_def)
  have "y \<le> of_int (m + 1)" by (rule my)
  also have "\<dots> \<le> of_int (2 ^ nat (bitlen m))"
    using b(2) by (simp only: of_int_le_iff)
  also have "\<dots> = pow2 (bitlen m)" using bl by (intro pow2_nat [symmetric]) simp
  finally have "y \<le> pow2 (bitlen m)" .
  then have "1 / pow2 (bitlen m) \<le> 1 / y"
    using ypos by (intro divide_left_mono) simp_all
  moreover have "pow2 (flog2 x) = 1 / pow2 (bitlen m)" by (simp only: f pow2_neg)
  ultimately have lo: "pow2 (flog2 x) \<le> x" by (simp only: x [symmetric])
  have "pow2 (bitlen m - 1) = of_int (2 ^ nat (bitlen m - 1))"
    using bl by (intro pow2_nat) simp
  also have "\<dots> \<le> of_int m" using b(1) by (simp only: of_int_le_iff)
  also have "\<dots> < y" by (rule my)
  finally have "pow2 (bitlen m - 1) < y" .
  then have "1 / y < 1 / pow2 (bitlen m - 1)"
    using ypos by (intro divide_strict_left_mono) simp_all
  moreover have "pow2 (flog2 x + 1) = 1 / pow2 (bitlen m - 1)"
    using pow2_neg [of "bitlen m - 1"] by (simp add: f)
  ultimately have "x < pow2 (flog2 x + 1)" by (simp only: x [symmetric])
  with lo show ?thesis by simp
qed

lemma flog2_unique:
  assumes "0 < x" "pow2 k \<le> x" "x < pow2 (k + 1)"
  shows "flog2 x = k"
proof -
  have "pow2 k < pow2 (flog2 x + 1)" using flog2_bounds [OF assms(1)] assms(2) by simp
  then have "k < flog2 x + 1" by (simp only: pow2_less_iff)
  moreover have "pow2 (flog2 x) < pow2 (k + 1)" using flog2_bounds [OF assms(1)] assms(3) by simp
  then have "flog2 x < k + 1" by (simp only: pow2_less_iff)
  ultimately show ?thesis by simp
qed

lemma flog2_mono:
  assumes "0 < x" "x \<le> y"
  shows "flog2 x \<le> flog2 y"
proof -
  have "pow2 (flog2 x) \<le> x" using flog2_bounds [OF assms(1)] by simp
  also have "\<dots> \<le> y" by (rule assms)
  also have "\<dots> < pow2 (flog2 y + 1)" using flog2_bounds [of y] assms by simp
  finally have "flog2 x < flog2 y + 1" by (simp only: pow2_less_iff)
  then show ?thesis by simp
qed

lemma flog2_upper:
  assumes "0 < x" "x < pow2 k"
  shows "flog2 x < k"
proof -
  have "pow2 (flog2 x) < pow2 k" using flog2_bounds [OF assms(1)] assms(2) by simp
  then show ?thesis by (simp only: pow2_less_iff)
qed

lemma rhe_of_int [simp]: "round_half_even (of_int n) = n"
  by (simp add: round_half_even_def)

lemma rhe_bounds: "\<lfloor>q\<rfloor> \<le> round_half_even q \<and> round_half_even q \<le> \<lfloor>q\<rfloor> + 1"
  by (simp add: round_half_even_def Let_def)

lemma rhe_mono:
  assumes "a \<le> b"
  shows "round_half_even a \<le> round_half_even b"
proof (cases "\<lfloor>a\<rfloor> = \<lfloor>b\<rfloor>")
  case True
  have d: "a - of_int \<lfloor>a\<rfloor> \<le> b - of_int \<lfloor>a\<rfloor>" using assms by simp
  show ?thesis
    using d True unfolding round_half_even_def Let_def
    by (auto split: if_splits)
next
  case False
  then have "\<lfloor>a\<rfloor> < \<lfloor>b\<rfloor>" using floor_mono [OF assms] by simp
  then have "round_half_even a \<le> \<lfloor>b\<rfloor>" using rhe_bounds [of a] by simp
  then show ?thesis using rhe_bounds [of b] by simp
qed

lemma rhe_le_int: "q \<le> of_int n \<Longrightarrow> round_half_even q \<le> n"
  using rhe_mono [of q "of_int n"] by simp

lemma rhe_ge_int: "of_int n \<le> q \<Longrightarrow> n \<le> round_half_even q"
  using rhe_mono [of "of_int n" q] by simp

lemma rhe_minus: "round_half_even (- q) = - round_half_even q"
proof (cases "q = of_int \<lfloor>q\<rfloor>")
  case True
  then obtain n where "q = of_int n" ..
  then show ?thesis by (simp flip: of_int_minus)
next
  case False
  have "of_int \<lfloor>q\<rfloor> < q"
    using False of_int_floor_le [of q] by (metis order_le_imp_less_or_eq)
  moreover have "q \<le> of_int \<lfloor>q\<rfloor> + 1" using floor_correct [of q] by linarith
  moreover have "real_of_int (- \<lfloor>q\<rfloor> - 1) = - of_int \<lfloor>q\<rfloor> - 1" by simp
  ultimately have "of_int (- \<lfloor>q\<rfloor> - 1) \<le> - q" "- q < of_int (- \<lfloor>q\<rfloor> - 1) + 1"
    by linarith+
  then have fl: "\<lfloor>- q\<rfloor> = - \<lfloor>q\<rfloor> - 1"
    by (rule floor_unique)
  have ev: "even (- \<lfloor>q\<rfloor> - 1) \<longleftrightarrow> odd \<lfloor>q\<rfloor>" by simp
  show ?thesis
    unfolding round_half_even_def Let_def fl ev
    by (auto simp: field_simps)
qed

lemma quantum_minus [simp]: "quantum (- x) = quantum x"
  by (simp add: quantum_def)

lemma rval_minus: "rval (- x) = - rval x"
  by (simp add: rval_def rhe_minus)

lemma rval_zero [simp]: "rval 0 = 0"
  by (simp add: rval_def round_half_even_def)

lemma rnd_rval:
  "rnd x = (if pow2 1024 \<le> \<bar>rval x\<bar> then (if 0 < x then PosInf else NegInf) else Fin (rval x))"
proof (cases "x = 0")
  case True
  have "\<not> pow2 1024 \<le> 0" using pow2_pos [of 1024] by (simp only: not_le)
  then show ?thesis using True by (simp add: rnd_def)
next
  case False
  then show ?thesis by (simp add: rnd_def rval_def Let_def)
qed

lemma quantum_mono:
  assumes "0 < x" "x \<le> y"
  shows "quantum x \<le> quantum y"
  using flog2_mono [OF assms] assms by (simp add: quantum_def)

lemma rval_mono_pos:
  assumes "0 < x" "x \<le> y"
  shows "rval x \<le> rval y"
proof (cases "quantum x = quantum y")
  case True
  have "x / pow2 (quantum y) \<le> y / pow2 (quantum y)"
    using assms(2) by (intro divide_right_mono) simp_all
  then have "round_half_even (x / pow2 (quantum y)) \<le> round_half_even (y / pow2 (quantum y))"
    by (rule rhe_mono)
  then have "real_of_int (round_half_even (x / pow2 (quantum y))) * pow2 (quantum y)
               \<le> real_of_int (round_half_even (y / pow2 (quantum y))) * pow2 (quantum y)"
    by (intro mult_right_mono) simp_all
  then show ?thesis by (simp add: rval_def True)
next
  case False
  have ypos: "0 < y" using assms by simp
  have ax: "\<bar>x\<bar> = x" and ay: "\<bar>y\<bar> = y" using assms by simp_all
  have lt: "quantum x < quantum y" using quantum_mono [OF assms] False by simp
  define L where "L = flog2 y"
  have qy: "quantum y = L - 52" and fx: "flog2 x < L"
    using lt by (auto simp: quantum_def ax ay L_def max_def split: if_splits)
  have qx: "quantum x \<le> L" using lt qy by simp
  have xl: "x \<le> pow2 L"
  proof -
    have "x < pow2 (flog2 x + 1)" using flog2_bounds [OF assms(1)] by simp
    also have "\<dots> \<le> pow2 L" using fx by (simp only: pow2_le_iff)
    finally show ?thesis by simp
  qed
  have ly: "pow2 L \<le> y" using flog2_bounds [OF ypos] by (simp add: L_def)
  \<comment> \<open>the power of two between them is a binary64 value of either spacing\<close>
  have px: "pow2 L = of_int (2 ^ nat (L - quantum x)) * pow2 (quantum x)"
  proof -
    have "pow2 L = pow2 ((L - quantum x) + quantum x)" by simp
    also have "\<dots> = pow2 (L - quantum x) * pow2 (quantum x)" by (rule pow2_add)
    also have "pow2 (L - quantum x) = of_int (2 ^ nat (L - quantum x))"
      using qx by (intro pow2_nat) simp
    finally show ?thesis .
  qed
  have py: "pow2 L = of_int (2 ^ 52) * pow2 (quantum y)"
  proof -
    have "pow2 L = pow2 (52 + quantum y)" by (simp add: qy)
    also have "\<dots> = pow2 52 * pow2 (quantum y)" by (rule pow2_add)
    finally show ?thesis by (simp add: pow2_def)
  qed
  have "x / pow2 (quantum x) \<le> of_int (2 ^ nat (L - quantum x))"
    using xl unfolding px by (simp add: field_simps)
  then have "round_half_even (x / pow2 (quantum x)) \<le> 2 ^ nat (L - quantum x)"
    by (rule rhe_le_int)
  then have "real_of_int (round_half_even (x / pow2 (quantum x))) * pow2 (quantum x)
               \<le> of_int (2 ^ nat (L - quantum x)) * pow2 (quantum x)"
    by (intro mult_right_mono) (simp_all only: of_int_le_iff pow2_pos less_imp_le)
  then have a: "rval x \<le> pow2 L" by (simp only: rval_def px)
  have "of_int (2 ^ 52) \<le> y / pow2 (quantum y)"
    using ly unfolding py by (simp add: field_simps)
  then have "2 ^ 52 \<le> round_half_even (y / pow2 (quantum y))"
    by (rule rhe_ge_int)
  then have "of_int (2 ^ 52) * pow2 (quantum y)
               \<le> real_of_int (round_half_even (y / pow2 (quantum y))) * pow2 (quantum y)"
    by (intro mult_right_mono) (simp_all only: of_int_le_iff pow2_pos less_imp_le)
  then have b: "pow2 L \<le> rval y" by (simp only: rval_def py)
  from a b show ?thesis by simp
qed

lemma rval_nonneg:
  assumes "0 \<le> x"
  shows "0 \<le> rval x"
proof -
  have "0 \<le> x / pow2 (quantum x)" using assms by (intro divide_nonneg_nonneg) simp_all
  then have "0 \<le> round_half_even (x / pow2 (quantum x))"
    using rhe_ge_int [of 0] by simp
  then show ?thesis by (simp add: rval_def)
qed

lemma rval_nonpos:
  assumes "x \<le> 0"
  shows "rval x \<le> 0"
  using rval_nonneg [of "- x"] assms by (simp add: rval_minus)

lemma rval_mono:
  assumes "x \<le> y"
  shows "rval x \<le> rval y"
proof -
  consider "0 < x" | "x \<le> 0" "0 \<le> y" | "y < 0" by linarith
  then show ?thesis
  proof cases
    case 1
    then show ?thesis using assms by (rule rval_mono_pos)
  next
    case 2
    then show ?thesis using rval_nonpos [of x] rval_nonneg [of y] by simp
  next
    case 3
    then have "rval (- y) \<le> rval (- x)" using assms by (intro rval_mono_pos) simp_all
    then show ?thesis by (simp add: rval_minus)
  qed
qed

lemma rnd_mono:
  assumes "x \<le> y"
  shows "js_le (rnd x) (rnd y)"
proof -
  have m: "rval x \<le> rval y" using assms by (rule rval_mono)
  have p: "0 < pow2 1024" by simp
  have sx: "0 < x \<Longrightarrow> 0 \<le> rval x" "x \<le> 0 \<Longrightarrow> rval x \<le> 0"
    using rval_nonneg [of x] rval_nonpos [of x] by simp_all
  have sy: "0 < y \<Longrightarrow> 0 \<le> rval y" "y \<le> 0 \<Longrightarrow> rval y \<le> 0"
    using rval_nonneg [of y] rval_nonpos [of y] by simp_all
  show ?thesis
    unfolding rnd_rval
    using m p sx sy assms by (auto simp: abs_if not_le split: if_splits)
qed

lemma rval_exact:
  assumes "x = of_int m * pow2 e" "\<bar>m\<bar> < 2 ^ 53" "- 1074 \<le> e"
  shows "rval x = x"
proof (cases "m = 0")
  case True
  then show ?thesis using assms(1) by simp
next
  case False
  have ax: "\<bar>x\<bar> = of_int \<bar>m\<bar> * pow2 e" by (simp add: assms(1) abs_mult)
  have pos: "0 < \<bar>x\<bar>" using False by (simp add: assms(1))
  have "of_int \<bar>m\<bar> < (of_int (2 ^ 53) :: real)" using assms(2) by (simp only: of_int_less_iff)
  then have "\<bar>x\<bar> < of_int (2 ^ 53) * pow2 e"
    unfolding ax by (intro mult_strict_right_mono) simp_all
  also have "\<dots> = pow2 (53 + e)" by (simp add: pow2_add) (simp add: pow2_def)
  finally have "flog2 \<bar>x\<bar> < 53 + e" using pos by (intro flog2_upper)
  then have q: "quantum x \<le> e" using assms(3) by (simp add: quantum_def)
  define d where "d = e - quantum x"
  define Q where "Q = pow2 (quantum x)"
  have Q: "Q \<noteq> 0" by (simp add: Q_def)
  have d: "0 \<le> d" "e = d + quantum x" using q by (simp_all add: d_def)
  have "pow2 e = pow2 d * pow2 (quantum x)"
    using pow2_add [of d "quantum x"] d(2) by (simp only:)
  then have pe: "pow2 e = of_int (2 ^ nat d) * Q"
    using pow2_nat [OF d(1)] by (simp only: Q_def)
  have xm: "x = of_int (m * 2 ^ nat d) * Q"
    unfolding assms(1) pe by simp
  then have "x / Q = of_int (m * 2 ^ nat d)" using Q by simp
  then have "round_half_even (x / Q) = m * 2 ^ nat d"
    by (simp only: rhe_of_int)
  then have "rval x = of_int (m * 2 ^ nat d) * Q" by (simp only: rval_def Q_def)
  then show ?thesis using xm by (simp only:)
qed

lemma rnd_exact:
  assumes "x = of_int m * pow2 e" "\<bar>m\<bar> < 2 ^ 53" "- 1074 \<le> e" "\<bar>x\<bar> < pow2 1024"
  shows "rnd x = Fin x"
  using rval_exact [OF assms(1-3)] assms(4) by (simp add: rnd_rval)

lemma rnd_of_int:
  assumes "\<bar>n\<bar> < 2 ^ 53"
  shows "rnd (of_int n) = Fin (of_int n)"
proof (rule rnd_exact [where m = n and e = 0])
  show "real_of_int n = real_of_int n * pow2 0" by (simp add: pow2_def)
  show "\<bar>n\<bar> < 2 ^ 53" by (rule assms)
  have "\<bar>real_of_int n\<bar> = of_int \<bar>n\<bar>" by simp
  also have "\<dots> < of_int (2 ^ 53)" using assms by (simp only: of_int_less_iff)
  also have "\<dots> < pow2 1024" by (simp add: pow2_def)
  finally show "\<bar>real_of_int n\<bar> < pow2 1024" .
qed simp

lemma rnd_half_int:
  assumes "\<bar>n\<bar> < 2 ^ 53"
  shows "rnd (of_int n / 2) = Fin (of_int n / 2)"
proof (rule rnd_exact [where m = n and e = "- 1"])
  show "real_of_int n / 2 = real_of_int n * pow2 (- 1)" by (simp add: pow2_def)
  show "\<bar>n\<bar> < 2 ^ 53" by (rule assms)
  have "\<bar>real_of_int n / 2\<bar> \<le> of_int \<bar>n\<bar>" by simp
  also have "\<dots> < of_int (2 ^ 53)" using assms by (simp only: of_int_less_iff)
  also have "\<dots> < pow2 1024" by (simp add: pow2_def)
  finally show "\<bar>real_of_int n / 2\<bar> < pow2 1024" .
qed simp

lemma rnd_zero [simp]: "rnd 0 = Fin 0"
  by (simp add: rnd_def)

lemma rnd_one [simp]: "rnd 1 = Fin 1"
  using rnd_of_int [of 1] by simp

lemma rnd_numeral [simp]:
  "numeral k < (9007199254740992 :: int) \<Longrightarrow> rnd (numeral k) = Fin (numeral k)"
  using rnd_of_int [of "numeral k"] by simp

lemma rnd_neg_numeral [simp]:
  "numeral k < (9007199254740992 :: int) \<Longrightarrow> rnd (- numeral k) = Fin (- numeral k)"
  using rnd_of_int [of "- numeral k"] by simp

lemma rnd_numeral_half [simp]:
  "numeral k < (9007199254740992 :: int) \<Longrightarrow> rnd (numeral k / 2) = Fin (numeral k / 2)"
  using rnd_half_int [of "numeral k"] by simp

section \<open>Evaluation of the string and date functions\<close>

lemmas str_eval = to_number_def trim_def is_ws_def non_decimal_def str_decimal_def
  unsigned_decimal_def is_digit_def digit_of_def digits_value_def decimal_value_def
  exponent_part_def pow10_def Let_def

lemmas date_eval = date_parse_def iso_date_only_def two_digits_def digits_value_def digit_of_def
  days_in_month_def is_leap_def days_from_civil_def civil_from_days_def local_civil_def
  getFullYear_def getMonth_def getDate_def msPerDay_def time_clip_def Let_def

section \<open>Sorting and the year filter\<close>

lemma sort_insert_insort:
  assumes "\<forall>y\<in>set ys. comes_after (cmp x y) \<longleftrightarrow> key y < key x"
  shows "sort_insert cmp x ys = insort_key key x ys"
  using assms by (induction ys) auto

lemma js_sort_sort_key:
  fixes key :: "'a \<Rightarrow> int"
  assumes "\<forall>x\<in>set xs. \<forall>y\<in>set xs. comes_after (cmp x y) \<longleftrightarrow> key y < key x"
  shows "js_sort cmp xs = sort_key key xs"
  using assms
proof (induction xs)
  case Nil
  then show ?case by (simp add: js_sort_def)
next
  case (Cons x xs)
  have ih: "js_sort cmp xs = sort_key key xs" using Cons by simp
  have "sort_insert cmp x (sort_key key xs) = insort_key key x (sort_key key xs)"
    by (rule sort_insert_insort) (use Cons.prems in simp)
  then show ?case using ih by (simp add: js_sort_def)
qed

lemma set_values_acc:
  "distinct acc \<Longrightarrow>
   distinct (foldl (\<lambda>acc x. if x \<in> set acc then acc else acc @ [x]) acc xs)
   \<and> set (foldl (\<lambda>acc x. if x \<in> set acc then acc else acc @ [x]) acc xs) = set acc \<union> set xs"
  by (induction xs arbitrary: acc) auto

lemma distinct_set_values: "distinct (set_values xs)"
  using set_values_acc [of "[]" xs] by (simp add: set_values_def)

lemma set_set_values: "set (set_values xs) = set xs"
  using set_values_acc [of "[]" xs] by (simp add: set_values_def)

lemma in_range_iff:
  "in_range cfg d \<longleftrightarrow> (\<exists>y. year d = Some y \<and> yearRange_start cfg \<le> y \<and> y \<le> yearRange_end cfg)"
  by (auto simp: in_range_def num_ge_def num_le_def split: option.splits)

lemma in_range_fun:
  "(\<lambda>d. num_ge (year d) (yearRange_start cfg) \<and> num_le (year d) (yearRange_end cfg))
     = in_range cfg"
  by (simp add: fun_eq_iff in_range_def)

lemma filteredData_eq:
  "filteredData (filterDataByYearRange cfg data) = filter (in_range cfg) data"
  by (simp add: filterDataByYearRange_def in_range_fun Let_def)

lemma years_eq:
  "years (filterDataByYearRange cfg data)
     = sort_key num_key (set_values (map year (filter (in_range cfg) data)))"
proof -
  let ?ys = "set_values (map year (filter (in_range cfg) data))"
  have some: "\<forall>a\<in>set ?ys. a \<noteq> None"
    by (auto simp: set_set_values in_range_iff)
  have "js_sort (\<lambda>a b. num_minus a b) ?ys = sort_key num_key ?ys"
    by (rule js_sort_sort_key)
      (use some in \<open>auto simp: comes_after_def num_minus_def num_key_def split: option.splits\<close>)
  then show ?thesis
    by (simp add: filterDataByYearRange_def in_range_fun Let_def)
qed

lemma years_set:
  "set (years (filterDataByYearRange cfg data)) = year ` set (filter (in_range cfg) data)"
  by (simp add: years_eq set_set_values)

lemma years_distinct: "distinct (years (filterDataByYearRange cfg data))"
  by (simp add: years_eq distinct_set_values)

lemma years_some: "a \<in> set (years (filterDataByYearRange cfg data)) \<Longrightarrow> a \<noteq> None"
  by (auto simp: years_set in_range_iff)

lemma sorted_wrt_strict_key:
  assumes "sorted (map num_key xs)" "distinct xs" "\<forall>a\<in>set xs. a \<noteq> None"
  shows "sorted_wrt num_lt xs"
  using assms
proof (induction xs)
  case Nil
  then show ?case by simp
next
  case (Cons a xs)
  have "num_lt a b" if "b \<in> set xs" for b
  proof -
    have "a \<noteq> None" "b \<noteq> None" using Cons.prems(3) that by auto
    then obtain x y where xy: "a = Some x" "b = Some y" by auto
    have "x \<le> y" using Cons.prems(1) that xy by (auto simp: num_key_def)
    moreover have "x \<noteq> y" using Cons.prems(2) that xy by auto
    ultimately show ?thesis using xy by (simp add: num_lt_def)
  qed
  then show ?case using Cons by simp
qed

lemma years_ascending: "sorted_wrt num_lt (years (filterDataByYearRange cfg data))"
proof (rule sorted_wrt_strict_key)
  show "sorted (map num_key (years (filterDataByYearRange cfg data)))"
    by (simp add: years_eq)
  show "distinct (years (filterDataByYearRange cfg data))" by (rule years_distinct)
  show "\<forall>a\<in>set (years (filterDataByYearRange cfg data)). a \<noteq> None"
    using years_some by blast
qed

section \<open>Parsing\<close>

lemma to_number_not_numeric:
  assumes "trim s = c # r" "\<not> is_digit c"
    and "c \<noteq> CHR ''+''" "c \<noteq> CHR ''-''" "c \<noteq> CHR ''.''" "c \<noteq> CHR ''I''"
  shows "to_number s = NaN"
proof -
  have z: "c \<noteq> CHR ''0''" using assms(2) by (auto simp: is_digit_def digit_of_def)
  have nd: "non_decimal (c # r) = None"
    using z by (simp add: non_decimal_def split: list.splits)
  have ud: "unsigned_decimal (c # r) = None"
    using assms(2,5) by (simp add: unsigned_decimal_def)
  have "str_decimal (c # r) = NaN"
    using assms(6) ud by (simp add: str_decimal_def)
  then show ?thesis using assms(1,3,4) nd by (simp add: to_number_def)
qed

lemma parse_length: "length (parseTemperatureData host rawData) = length rawData"
  by (simp add: parseTemperatureData_def)

lemma parse_nth:
  assumes "i < length rawData"
  shows "parseTemperatureData host rawData ! i
           = \<lparr>year = getFullYear host (date_parse host (csv_date (rawData ! i))),
              month = getMonth host (date_parse host (csv_date (rawData ! i))),
              date = date_parse host (csv_date (rawData ! i)),
              maxTemperature = to_number (max_temperature (rawData ! i)),
              minTemperature = to_number (min_temperature (rawData ! i)),
              day = getDate host (date_parse host (csv_date (rawData ! i)))\<rparr>"
  using assms by (simp add: parseTemperatureData_def)

lemma parse_year_day:
  assumes "p \<in> set (parseTemperatureData host rawData)"
  shows "(year p = None \<longleftrightarrow> date p = None) \<and> (month p = None \<longleftrightarrow> date p = None)
         \<and> (day p = None \<longleftrightarrow> date p = None)"
  using assms by (auto simp: parseTemperatureData_def getFullYear_def getMonth_def getDate_def)

lemma nan_year_not_in_range: "year p = None \<Longrightarrow> \<not> in_range cfg p"
  by (simp add: in_range_iff)

section \<open>The grouping and the loop\<close>

lemma map_of_group_push:
  "map_of (group_push k v g) k'
     = (if k' = k then Some ((case map_of g k of None \<Rightarrow> [] | Some l \<Rightarrow> l) @ [v])
        else map_of g k')"
  by (induction g) auto

lemma map_of_group_fold:
  "map_of (foldl (\<lambda>g v. group_push (f v) v g) g xs) k
     = (case map_of g k of
          None \<Rightarrow> if k \<in> f ` set xs then Some (filter (\<lambda>v. f v = k) xs) else None
        | Some l \<Rightarrow> Some (l @ filter (\<lambda>v. f v = k) xs))"
proof (induction xs arbitrary: g)
  case Nil
  then show ?case by (simp split: option.splits)
next
  case (Cons x xs)
  show ?case
    by (simp add: Cons.IH map_of_group_push split: option.splits)
qed

lemma map_of_group_by:
  "map_of (group_by f xs) k
     = (if k \<in> f ` set xs then Some (filter (\<lambda>v. f v = k) xs) else None)"
  by (simp add: group_by_def map_of_group_fold)

lemma group_get_d3_group:
  "group_get (d3_group xs f h) k l = filter (\<lambda>v. f v = k \<and> h v = l) xs"
proof -
  define ys where "ys = filter (\<lambda>v. f v = k) xs"
  have m: "map_of (d3_group xs f h) k = map_option (group_by h) (map_of (group_by f xs) k)"
    by (simp add: d3_group_def map_of_map)
  have c: "filter (\<lambda>v. h v = l) ys = filter (\<lambda>v. f v = k \<and> h v = l) xs"
    by (simp add: ys_def conj_commute)
  have inner: "(case map_of (group_by h ys) l of None \<Rightarrow> [] | Some vs \<Rightarrow> vs)
                 = filter (\<lambda>v. h v = l) ys"
  proof (cases "l \<in> h ` set ys")
    case True
    then show ?thesis by (simp add: map_of_group_by)
  next
    case False
    then have "filter (\<lambda>v. h v = l) ys = []" by (auto simp: filter_empty_conv)
    then show ?thesis using False by (simp add: map_of_group_by)
  qed
  show ?thesis
  proof (cases "k \<in> f ` set xs")
    case False
    then have "filter (\<lambda>v. f v = k \<and> h v = l) xs = []"
      by (auto simp: filter_empty_conv)
    then show ?thesis using False by (simp add: group_get_def m map_of_group_by)
  next
    case True
    then have "group_get (d3_group xs f h) k l
                 = (case map_of (group_by h ys) l of None \<Rightarrow> [] | Some vs \<Rightarrow> vs)"
      by (simp add: group_get_def m map_of_group_by ys_def)
    then show ?thesis by (simp only: inner c)
  qed
qed

lemma load_groups_Group:
  "load_groups st (Group y m) = records_of (st Data) y m"
  by (simp add: load_groups_def group_get_d3_group records_of_def)

lemma load_groups_Data: "load_groups st Data = st Data"
  by (simp add: load_groups_def)

lemma js_sort_Nil: "js_sort cmp [] = []"
  by (simp add: js_sort_def)

lemma month_step_eq:
  "month_step y (st, out) mi
     = (st(Group y (Some (int (fst mi))) :=
             js_sort (\<lambda>a b. num_minus (day a) (day b)) (st (Group y (Some (int (fst mi)))))),
        out @ pending_cell y mi (st (Group y (Some (int (fst mi))))))"
proof (cases "st (Group y (Some (int (fst mi)))) = []")
  case True
  then have "st(Group y (Some (int (fst mi))) := []) = st" by (simp add: fun_eq_iff)
  then show ?thesis using True
    by (cases mi) (simp add: month_step_def pending_cell_def js_sort_Nil Let_def)
next
  case False
  then show ?thesis
    by (cases mi) (simp add: month_step_def pending_cell_def Let_def)
qed

lemma month_loop:
  assumes "distinct (map fst ms)"
  shows "foldl (month_step y) (st, out) ms
           = (sorted_store st ((\<lambda>mi. Group y (Some (int (fst mi)))) ` set ms),
              out @ concat (map (\<lambda>mi. pending_cell y mi (st (Group y (Some (int (fst mi)))))) ms))"
  using assms
proof (induction ms arbitrary: st out)
  case Nil
  then show ?case by (simp add: sorted_store_def)
next
  case (Cons mi ms)
  let ?k = "Group y (Some (int (fst mi)))"
  let ?st1 = "st(?k := js_sort (\<lambda>a b. num_minus (day a) (day b)) (st ?k))"
  have notin: "?k \<notin> (\<lambda>mi. Group y (Some (int (fst mi)))) ` set ms"
    using Cons.prems by (auto simp: image_iff)
  have same: "?st1 (Group y (Some (int (fst m)))) = st (Group y (Some (int (fst m))))"
    if "m \<in> set ms" for m
  proof -
    have "fst m \<noteq> fst mi" using Cons.prems that by (auto simp: image_iff)
    then show ?thesis by simp
  qed
  have cells: "map (\<lambda>m. pending_cell y m (?st1 (Group y (Some (int (fst m)))))) ms
                 = map (\<lambda>m. pending_cell y m (st (Group y (Some (int (fst m)))))) ms"
    by (rule map_cong) (use same in auto)
  have stores: "sorted_store ?st1 ((\<lambda>mi. Group y (Some (int (fst mi)))) ` set ms)
                  = sorted_store st ((\<lambda>mi. Group y (Some (int (fst mi)))) ` set (mi # ms))"
    using notin by (auto simp: sorted_store_def fun_eq_iff)
  have "foldl (month_step y) (st, out) (mi # ms)
          = foldl (month_step y) (?st1, out @ pending_cell y mi (st ?k)) ms"
    by (simp add: month_step_eq)
  also have "\<dots> = (sorted_store ?st1 ((\<lambda>mi. Group y (Some (int (fst mi)))) ` set ms),
                    (out @ pending_cell y mi (st ?k))
                      @ concat (map (\<lambda>m. pending_cell y m (?st1 (Group y (Some (int (fst m)))))) ms))"
    using Cons.prems by (intro Cons.IH) simp
  finally show ?case
    unfolding cells stores by simp
qed

lemma distinct_months: "distinct (map fst (enumerate 0 MONTHS))"
  by (simp add: MONTHS_def)

lemma year_step_eq:
  "year_step (st, out) y
     = (sorted_store st (month_ids y),
        out @ concat (map (\<lambda>mi. pending_cell y mi (st (Group y (Some (int (fst mi))))))
                          (enumerate 0 MONTHS)))"
  unfolding year_step_def month_ids_def
  by (rule month_loop) (rule distinct_months)

lemma month_ids_year: "Group y' m \<in> month_ids y \<Longrightarrow> y' = y"
  by (auto simp: month_ids_def)

lemma year_loop:
  assumes "distinct ys"
  shows "foldl year_step (st, out) ys
           = (sorted_store st (\<Union>y\<in>set ys. month_ids y),
              out @ concat (map (\<lambda>y. concat (map (\<lambda>mi. pending_cell y mi (st (Group y (Some (int (fst mi))))))
                                                 (enumerate 0 MONTHS))) ys))"
  using assms
proof (induction ys arbitrary: st out)
  case Nil
  then show ?case by (simp add: sorted_store_def)
next
  case (Cons y ys)
  let ?st1 = "sorted_store st (month_ids y)"
  have same: "?st1 (Group y' m) = st (Group y' m)" if "y' \<in> set ys" for y' m
    using Cons.prems that month_ids_year [of y' m y] by (auto simp: sorted_store_def)
  have cells: "map (\<lambda>y. concat (map (\<lambda>mi. pending_cell y mi (?st1 (Group y (Some (int (fst mi))))))
                                 (enumerate 0 MONTHS))) ys
             = map (\<lambda>y. concat (map (\<lambda>mi. pending_cell y mi (st (Group y (Some (int (fst mi))))))
                                 (enumerate 0 MONTHS))) ys"
    by (rule map_cong) (use same in auto)
  have disj: "a \<in> month_ids y \<Longrightarrow> a \<notin> (\<Union>y\<in>set ys. month_ids y)" for a
    using Cons.prems by (auto simp: month_ids_def)
  have stores: "sorted_store ?st1 (\<Union>y\<in>set ys. month_ids y)
                  = sorted_store st (\<Union>y\<in>set (y # ys). month_ids y)"
    using disj by (auto simp: sorted_store_def fun_eq_iff)
  have "foldl year_step (st, out) (y # ys)
          = foldl year_step (?st1, out @ concat (map (\<lambda>mi. pending_cell y mi (st (Group y (Some (int (fst mi))))))
                          (enumerate 0 MONTHS))) ys"
    by (simp add: year_step_eq)
  also have "\<dots> = (sorted_store ?st1 (\<Union>y\<in>set ys. month_ids y),
        (out @ concat (map (\<lambda>mi. pending_cell y mi (st (Group y (Some (int (fst mi))))))
                          (enumerate 0 MONTHS)))
         @ concat (map (\<lambda>y. concat (map (\<lambda>mi. pending_cell y mi (?st1 (Group y (Some (int (fst mi))))))
                                                 (enumerate 0 MONTHS))) ys))"
    using Cons.prems by (intro Cons.IH) simp
  finally show ?case unfolding cells stores by simp
qed

lemma finish_pending_cell:
  assumes "Group y (Some (int (fst mi))) \<in> A"
  shows "map (finish (sorted_store st A)) (pending_cell y mi (st (Group y (Some (int (fst mi))))))
           = month_cell y mi (st (Group y (Some (int (fst mi)))))"
  using assms by (simp add: pending_cell_def month_cell_def finish_def sorted_store_def)

lemma aggregate_run_distinct:
  assumes "distinct ys"
  shows "fst (aggregate_run st ys)
           = concat (map (\<lambda>y. concat (map (\<lambda>mi. month_cell y mi (records_of (st Data) y (Some (int (fst mi)))))
                                           (enumerate 0 MONTHS))) ys)"
proof -
  let ?A = "\<Union>y\<in>set ys. month_ids y"
  let ?st0 = "load_groups st"
  have cell: "map (finish (sorted_store ?st0 ?A)) (pending_cell y mi (?st0 (Group y (Some (int (fst mi))))))
                = month_cell y mi (records_of (st Data) y (Some (int (fst mi))))"
    if "y \<in> set ys" "mi \<in> set (enumerate 0 MONTHS)" for y mi
  proof -
    have "Group y (Some (int (fst mi))) \<in> ?A" using that by (auto simp: month_ids_def)
    then show ?thesis
      using finish_pending_cell [of y mi ?A ?st0] by (simp add: load_groups_Group)
  qed
  have "fst (aggregate_run st ys)
          = map (finish (sorted_store ?st0 ?A))
              (concat (map (\<lambda>y. concat (map (\<lambda>mi. pending_cell y mi (?st0 (Group y (Some (int (fst mi))))))
                                                 (enumerate 0 MONTHS))) ys))"
    by (simp add: aggregate_run_def year_loop [OF assms])
  also have "\<dots> = concat (map (\<lambda>y. concat (map (\<lambda>mi. map (finish (sorted_store ?st0 ?A))
                                (pending_cell y mi (?st0 (Group y (Some (int (fst mi)))))))
                                                 (enumerate 0 MONTHS))) ys)"
    by (simp add: map_concat comp_def)
  also have "\<dots> = concat (map (\<lambda>y. concat (map (\<lambda>mi. month_cell y mi (records_of (st Data) y (Some (int (fst mi)))))
                                           (enumerate 0 MONTHS))) ys)"
    by (intro arg_cong [where f = concat] map_cong refl) (use cell in auto)
  finally show ?thesis .
qed

lemma aggregateMonthlyData_distinct:
  assumes "distinct ys"
  shows "aggregateMonthlyData data ys
           = concat (map (\<lambda>y. concat (map (\<lambda>mi. month_cell y mi (records_of data y (Some (int (fst mi)))))
                                           (enumerate 0 MONTHS))) ys)"
  by (simp add: aggregateMonthlyData_def aggregate_run_distinct [OF assms])

section \<open>The output of the loop in closed form\<close>

lemma month_cell_cell_of:
  "month_cell y mi recs = (if recs = [] then [] else [cell_of y mi recs])"
  by (simp add: month_cell_def cell_of_def)

lemma concat_product:
  "concat (map (\<lambda>x. concat (map (f x) ys)) xs)
     = concat (map (\<lambda>p. f (fst p) (snd p)) (List.product xs ys))"
  by (induction xs) (simp_all add: comp_def)

lemma concat_map_if:
  "concat (map (\<lambda>x. if P x then [g x] else []) xs) = map g (filter P xs)"
  by (induction xs) simp_all

lemma aggregateMonthlyData_closed_form:
  assumes "distinct ys"
  shows "aggregateMonthlyData data ys
           = map (\<lambda>p. cell_of (fst p) (snd p) (records_of data (fst p) (Some (int (fst (snd p))))))
               (filter (nonempty_cell data) (List.product ys (enumerate 0 MONTHS)))"
proof -
  have "aggregateMonthlyData data ys
          = concat (map (\<lambda>p. month_cell (fst p) (snd p)
                               (records_of data (fst p) (Some (int (fst (snd p))))))
                        (List.product ys (enumerate 0 MONTHS)))"
    unfolding aggregateMonthlyData_distinct [OF assms]
    by (rule concat_product)
  also have "\<dots> = concat (map (\<lambda>p. if nonempty_cell data p
                                     then [cell_of (fst p) (snd p)
                                             (records_of data (fst p) (Some (int (fst (snd p)))))]
                                     else [])
                        (List.product ys (enumerate 0 MONTHS)))"
    by (intro arg_cong [where f = concat] map_cong refl)
       (simp add: month_cell_cell_of nonempty_cell_def)
  finally show ?thesis by (simp only: concat_map_if)
qed

lemma year_cell_of [simp]: "year (cell_of y mi recs) = y"
  and month_cell_of [simp]: "month (cell_of y mi recs) = Some (int (fst mi))"
  and dailyData_cell_of [simp]:
    "dailyData (cell_of y mi recs) = js_sort (\<lambda>a b. num_minus (day a) (day b)) recs"
  by (simp_all add: cell_of_def)

lemma enumerate_months: "map fst (enumerate 0 MONTHS) = [0..<12]"
proof -
  have "length MONTHS = 12" by (simp add: MONTHS_def)
  then show ?thesis using map_fst_enumerate [of 0 MONTHS] by simp
qed

lemma keys_closed_form:
  assumes "distinct ys"
  shows "map (\<lambda>s. (year s, month s)) (aggregateMonthlyData data ys)
           = map (\<lambda>p. (fst p, Some (int (snd p))))
               (filter (\<lambda>p. records_of data (fst p) (Some (int (snd p))) \<noteq> [])
                  (List.product ys [0..<12]))"
proof -
  have "List.product ys (map fst zs) = map (\<lambda>p. (fst p, fst (snd p))) (List.product ys zs)"
    for zs :: "(nat \<times> string) list"
    by (induction ys) (simp_all add: comp_def)
  from this [of "enumerate 0 MONTHS"]
  have prod: "List.product ys [0..<12]
                = map (\<lambda>p. (fst p, fst (snd p))) (List.product ys (enumerate 0 MONTHS))"
    by (simp only: enumerate_months)
  show ?thesis
    unfolding aggregateMonthlyData_closed_form [OF assms] prod
    by (simp add: filter_map comp_def nonempty_cell_def [abs_def])
qed

lemma distinct_keys:
  assumes "distinct ys"
  shows "distinct (map (\<lambda>s. (year s, month s)) (aggregateMonthlyData data ys))"
proof -
  have "inj_on (\<lambda>p :: int option \<times> nat. (fst p, Some (int (snd p)))) A" for A
    by (auto simp: inj_on_def)
  moreover have "distinct (filter (\<lambda>p. records_of data (fst p) (Some (int (snd p))) \<noteq> [])
                  (List.product ys [0..<12]))"
    using assms by (simp add: distinct_product)
  ultimately show ?thesis
    unfolding keys_closed_form [OF assms]
    by (simp add: distinct_map)
qed

lemma set_keys:
  assumes "distinct ys"
  shows "set (map (\<lambda>s. (year s, month s)) (aggregateMonthlyData data ys))
           = {(y, Some (int mi)) | y mi. y \<in> set ys \<and> mi < 12 \<and> records_of data y (Some (int mi)) \<noteq> []}"
  unfolding keys_closed_form [OF assms] by (auto simp: image_iff)

lemma length_filter_distinct:
  assumes "distinct ks"
  shows "length (filter (\<lambda>k. k = a) ks) = (if a \<in> set ks then 1 else 0)"
  using assms by (induction ks) auto

lemma records_of_nonempty_year:
  assumes "records_of data y m \<noteq> []"
  shows "y \<in> year ` set data"
proof -
  obtain d where "d \<in> set (records_of data y m)" using assms by (cases "records_of data y m") auto
  then show ?thesis by (auto simp: records_of_def)
qed

lemma filtered_years:
  "set (years (filterDataByYearRange cfg data))
     = year ` set (filteredData (filterDataByYearRange cfg data))"
  by (simp add: years_set filteredData_eq)

lemma sparse_count:
  assumes "distinct ys" "year ` set data \<subseteq> set ys" "mi < 12"
  shows "length (filter (\<lambda>s. year s = y \<and> month s = Some (int mi)) (aggregateMonthlyData data ys))
           = (if records_of data y (Some (int mi)) = [] then 0 else 1)"
proof -
  let ?out = "aggregateMonthlyData data ys"
  let ?keys = "map (\<lambda>s. (year s, month s)) ?out"
  have "length (filter (\<lambda>s. year s = y \<and> month s = Some (int mi)) ?out)
          = length (filter (\<lambda>k. k = (y, Some (int mi))) ?keys)"
    by (simp add: filter_map comp_def)
  also have "\<dots> = (if (y, Some (int mi)) \<in> set ?keys then 1 else 0)"
    by (rule length_filter_distinct) (rule distinct_keys [OF assms(1)])
  also have "(y, Some (int mi)) \<in> set ?keys \<longleftrightarrow> records_of data y (Some (int mi)) \<noteq> []"
    using assms(2,3) records_of_nonempty_year [of data y "Some (int mi)"]
    unfolding set_keys [OF assms(1)] by auto
  finally show ?thesis by simp
qed

lemma sparse_length:
  assumes "distinct ys" "year ` set data \<subseteq> set ys"
  shows "length (aggregateMonthlyData data ys)
           = card {(y, mi). mi < (12::nat) \<and> records_of data y (Some (int mi)) \<noteq> []}"
proof -
  let ?out = "aggregateMonthlyData data ys"
  let ?keys = "map (\<lambda>s. (year s, month s)) ?out"
  let ?S = "{(y, mi). mi < (12::nat) \<and> records_of data y (Some (int mi)) \<noteq> []}"
  have "set ?keys = (\<lambda>p. (fst p, Some (int (snd p)))) ` ?S"
    using assms(2) records_of_nonempty_year [of data]
    unfolding set_keys [OF assms(1)] by (auto simp: image_iff) blast
  moreover have "inj_on (\<lambda>p :: int option \<times> nat. (fst p, Some (int (snd p)))) ?S"
    by (auto simp: inj_on_def)
  ultimately have "card (set ?keys) = card ?S" by (simp add: card_image)
  moreover have "card (set ?keys) = length ?keys"
    by (rule distinct_card) (rule distinct_keys [OF assms(1)])
  ultimately show ?thesis by simp
qed

lemma output_months:
  assumes "distinct ys" "s \<in> set (aggregateMonthlyData data ys)"
  shows "\<exists>mi<12. month s = Some (int mi) \<and> year s \<in> set ys
           \<and> records_of data (year s) (month s) \<noteq> []
           \<and> dailyData s = js_sort (\<lambda>a b. num_minus (day a) (day b))
                              (records_of data (year s) (month s))"
proof -
  from assms(2) obtain p
    where mem: "p \<in> set (List.product ys (enumerate 0 MONTHS))" and ne: "nonempty_cell data p"
      and s: "s = cell_of (fst p) (snd p) (records_of data (fst p) (Some (int (fst (snd p)))))"
    unfolding aggregateMonthlyData_closed_form [OF assms(1)] by auto
  have "snd p \<in> set (enumerate 0 MONTHS)" and y: "fst p \<in> set ys"
    using mem by (simp_all add: mem_Times_iff)
  then have "fst (snd p) \<in> set (map fst (enumerate 0 MONTHS))" by (simp del: map_fst_enumerate)
  then have "fst (snd p) < 12" by (simp only: enumerate_months) simp
  then show ?thesis using ne s y by (auto simp: nonempty_cell_def)
qed

lemma sorted_wrt_product:
  assumes "sorted_wrt A xs" "sorted_wrt B ys"
  shows "sorted_wrt (\<lambda>p q. A (fst p) (fst q) \<or> (fst p = fst q \<and> B (snd p) (snd q)))
           (List.product xs ys)"
  using assms(1)
proof (induction xs)
  case Nil
  then show ?case by simp
next
  case (Cons x xs)
  have "sorted_wrt (\<lambda>p q. A (fst p) (fst q) \<or> (fst p = fst q \<and> B (snd p) (snd q)))
          (map (Pair x) ys)"
    using assms(2) by (simp add: sorted_wrt_map sorted_wrt_mono_rel [of ys B])
  then show ?case using Cons by (auto simp: sorted_wrt_append)
qed

lemma sorted_months: "sorted_wrt (\<lambda>a b. fst a < fst b) (enumerate 0 MONTHS)"
proof -
  have "sorted_wrt (<) (map fst (enumerate 0 MONTHS))"
    by (simp only: enumerate_months sorted_wrt_upt)
  then show ?thesis by (simp only: sorted_wrt_map)
qed

lemma aggregate_sorted:
  assumes "sorted_wrt num_lt ys" "distinct ys"
  shows "sorted_wrt year_month_lt (aggregateMonthlyData data ys)"
proof -
  let ?R = "\<lambda>p q :: int option \<times> nat \<times> string.
              num_lt (fst p) (fst q) \<or> (fst p = fst q \<and> fst (snd p) < fst (snd q))"
  have "sorted_wrt ?R (List.product ys (enumerate 0 MONTHS))"
    by (rule sorted_wrt_product [OF assms(1) sorted_months])
  then have "sorted_wrt ?R (filter (nonempty_cell data) (List.product ys (enumerate 0 MONTHS)))"
    by (rule sorted_wrt_filter)
  then show ?thesis
    unfolding aggregateMonthlyData_closed_form [OF assms(2)]
    by (simp add: sorted_wrt_map year_month_lt_def num_lt_def)
qed

lemma js_sort_by_day:
  assumes "\<forall>d\<in>set xs. day d \<noteq> None"
  shows "js_sort (\<lambda>a b. num_minus (day a) (day b)) xs = sort_key (\<lambda>d. num_key (day d)) xs"
  by (rule js_sort_sort_key)
     (use assms in \<open>auto simp: comes_after_def num_minus_def num_key_def split: option.splits\<close>)

lemma parse_filtered_days:
  assumes "d \<in> set (filteredData (filterDataByYearRange cfg (parseTemperatureData host rawData)))"
  shows "day d \<noteq> None"
proof -
  have "d \<in> set (parseTemperatureData host rawData)" "in_range cfg d"
    using assms by (simp_all add: filteredData_eq)
  then show ?thesis
    using parse_year_day [of d host rawData] by (auto simp: in_range_iff)
qed

lemma records_of_filtered:
  assumes "y \<in> set (years (filterDataByYearRange cfg data))"
  shows "records_of (filteredData (filterDataByYearRange cfg data)) y m = records_of data y m"
proof -
  obtain d where "in_range cfg d" "year d = y"
    using assms by (auto simp: years_set)
  then have "in_range cfg d'" if "year d' = y" for d'
    using that by (simp add: in_range_def)
  then have "filter (\<lambda>d. in_range cfg d \<and> year d = y \<and> month d = m) data
               = filter (\<lambda>d. year d = y \<and> month d = m) data"
    by (intro filter_cong refl) auto
  then show ?thesis by (simp add: filteredData_eq records_of_def)
qed

lemma sorted_by_day:
  assumes "\<forall>d\<in>set xs. day d \<noteq> None"
  shows "sorted_wrt day_le (sort_key (\<lambda>d. num_key (day d)) xs)"
proof -
  have "sorted (map (\<lambda>d. num_key (day d)) (sort_key (\<lambda>d. num_key (day d)) xs))"
    by (rule sorted_sort_key)
  then have "sorted_wrt (\<lambda>a b. num_key (day a) \<le> num_key (day b)) (sort_key (\<lambda>d. num_key (day d)) xs)"
    by (simp only: sorted_map)
  then show ?thesis
  proof (rule sorted_wrt_mono_rel [rotated])
    fix a b
    assume "a \<in> set (sort_key (\<lambda>d. num_key (day d)) xs)" "b \<in> set (sort_key (\<lambda>d. num_key (day d)) xs)"
      "num_key (day a) \<le> num_key (day b)"
    then have "a \<in> set xs" "b \<in> set xs" and le: "num_key (day a) \<le> num_key (day b)"
      by simp_all
    then have "day a \<noteq> None" "day b \<noteq> None" using assms by blast+
    then obtain x y where "day a = Some x" "day b = Some y" by auto
    then show "day_le a b" using le by (simp add: day_le_def num_key_def)
  qed
qed

section \<open>Evaluation on the example inputs\<close>

lemmas agg_eval = month_cell_def records_of_def MONTHS_def d3_max_def d3_min_def d3_mean_def
  js_sort_def comes_after_def num_minus_def

lemma sample_filtered:
  "filterDataByYearRange CONFIG sample_records
     = \<lparr>filteredData = [sample_records ! 0, sample_records ! 2, sample_records ! 3],
        years = [Some 2009, Some 2015]\<rparr>"
  by (simp add: filterDataByYearRange_def sample_records_def CONFIG_def num_ge_def num_le_def
      set_values_def js_sort_def comes_after_def num_minus_def)

lemma sample_output:
  "aggregateMonthlyData [sample_records ! 0, sample_records ! 2, sample_records ! 3]
     [Some 2009, Some 2015]
     = [\<lparr>year = Some 2009, month = Some 6, monthName = ''July'',
         maxTemp = Some (Fin 31), minTemp = Some (Fin 27),
         avgMax = Some (Fin 31), avgMin = Some (Fin 27),
         dailyData = [sample_records ! 2]\<rparr>,
        \<lparr>year = Some 2015, month = Some 0, monthName = ''January'',
         maxTemp = Some (Fin 22), minTemp = Some (Fin 10),
         avgMax = Some (Fin 21), avgMin = Some (Fin (21 / 2)),
         dailyData = [sample_records ! 3, sample_records ! 0]\<rparr>]"
proof -
  have d: "distinct [Some (2009::int), Some 2015]" by simp
  show ?thesis
    unfolding aggregateMonthlyData_distinct [OF d]
    by (simp add: agg_eval sample_records_def)
qed

lemma sample_pipeline:
  "aggregateMonthlyData (filteredData (filterDataByYearRange CONFIG sample_records))
     (years (filterDataByYearRange CONFIG sample_records))
     = [\<lparr>year = Some 2009, month = Some 6, monthName = ''July'',
         maxTemp = Some (Fin 31), minTemp = Some (Fin 27),
         avgMax = Some (Fin 31), avgMin = Some (Fin 27),
         dailyData = [sample_records ! 2]\<rparr>,
        \<lparr>year = Some 2015, month = Some 0, monthName = ''January'',
         maxTemp = Some (Fin 22), minTemp = Some (Fin 10),
         avgMax = Some (Fin 21), avgMin = Some (Fin (21 / 2)),
         dailyData = [sample_records ! 3, sample_records ! 0]\<rparr>]"
  by (simp only: sample_filtered sample_output filtered.simps)

lemma sample_records_of:
  "records_of (filteredData (filterDataByYearRange CONFIG sample_records)) (Some 2015) (Some (int 0))
     = [sample_records ! 0, sample_records ! 3]"
  "records_of (filteredData (filterDataByYearRange CONFIG sample_records)) (Some 2015) (Some (int 1))
     = []"
  by (simp_all only: sample_filtered filtered.simps)
     (simp_all add: records_of_def sample_records_def)

lemma iso_jan15: "iso_date_only ''2015-01-15'' = Some (2015, 1, 15)"
  by (simp add: iso_date_only_def two_digits_def digits_value_def digit_of_def
      days_in_month_def is_leap_def Let_def)

lemma iso_jan16: "iso_date_only ''2015-01-16'' = Some (2015, 1, 16)"
  by (simp add: iso_date_only_def two_digits_def digits_value_def digit_of_def
      days_in_month_def is_leap_def Let_def)

lemma date_parse_jan15: "date_parse host ''2015-01-15'' = Some 1421280000000"
  by (simp add: date_parse_def iso_jan15 days_from_civil_def msPerDay_def Let_def)

lemma date_parse_jan16: "date_parse host ''2015-01-16'' = Some 1421366400000"
  by (simp add: date_parse_def iso_jan16 days_from_civil_def msPerDay_def Let_def)

lemma civil_jan:
  "civil_from_days 16449 = (2015, 1, 14)"
  "civil_from_days 16450 = (2015, 1, 15)"
  "civil_from_days 16451 = (2015, 1, 16)"
  by code_simp+





lemma to_number_january:
  "to_number ''20.0'' = Fin 20" "to_number ''10.0'' = Fin 10"
  "to_number ''22.0'' = Fin 22" "to_number ''11.0'' = Fin 11"
  by (simp_all add: str_eval)







lemma parse_reversed:
  "parseTemperatureData utc_host (rev january_rows) = [day16, day15]"
  by (simp add: parseTemperatureData_def january_rows_def date_parse_jan15 date_parse_jan16
      to_number_january getFullYear_def getMonth_def getDate_def local_civil_def utc_host_def
      msPerDay_def civil_jan day15_def day16_def)

lemma pipeline_reversed:
  "aggregateMonthlyData
     (filteredData (filterDataByYearRange CONFIG [day16, day15]))
     (years (filterDataByYearRange CONFIG [day16, day15]))
     = [\<lparr>year = Some 2015, month = Some 0, monthName = ''January'',
         maxTemp = Some (Fin 22), minTemp = Some (Fin 10),
         avgMax = Some (Fin 21), avgMin = Some (Fin (21 / 2)),
         dailyData = [day15, day16]\<rparr>]"
proof -
  have f: "filterDataByYearRange CONFIG [day16, day15]
             = \<lparr>filteredData = [day16, day15], years = [Some 2015]\<rparr>"
    by (simp add: filterDataByYearRange_def num_ge_def num_le_def set_values_def js_sort_def
        CONFIG_def day15_def day16_def)
  have d: "distinct [Some (2015::int)]" by simp
  have "aggregateMonthlyData [day16, day15] [Some 2015]
          = [\<lparr>year = Some 2015, month = Some 0, monthName = ''January'',
         maxTemp = Some (Fin 22), minTemp = Some (Fin 10),
         avgMax = Some (Fin 21), avgMin = Some (Fin (21 / 2)),
         dailyData = [day15, day16]\<rparr>]"
    unfolding aggregateMonthlyData_distinct [OF d]
    by (simp add: agg_eval day15_def day16_def)
  then show ?thesis by (simp add: f)
qed

section \<open>Comparisons, extrema and means\<close>

lemma js_le_refl_iff: "js_le a a \<longleftrightarrow> a \<noteq> NaN"
  by (cases a) simp_all

lemma js_le_trans: "js_le a b \<Longrightarrow> js_le b c \<Longrightarrow> js_le a c"
  by (cases a; cases b; cases c) simp_all

lemma js_lt_not_le: "js_lt a b \<Longrightarrow> js_le a b"
  by (cases a; cases b) simp_all

lemma js_not_lt_le: "a \<noteq> NaN \<Longrightarrow> b \<noteq> NaN \<Longrightarrow> \<not> js_lt a b \<Longrightarrow> js_le b a"
  by (cases a; cases b) simp_all

lemma rnd_not_NaN [simp]: "rnd x \<noteq> NaN"
  by (simp add: rnd_rval)

lemma js_le_NegInf [simp]: "js_le NegInf a \<longleftrightarrow> a \<noteq> NaN"
  by (cases a) simp_all

lemma js_le_PosInf [simp]: "js_le a PosInf \<longleftrightarrow> a \<noteq> NaN"
  by (cases a) simp_all

lemma rnd_minus: "rnd (- x) = js_neg (rnd x)"
proof (cases "x = 0")
  case True
  then show ?thesis by simp
next
  case False
  then show ?thesis by (auto simp: rnd_rval rval_minus)
qed

lemma d3_max_fold:
  assumes "\<forall>x\<in>set xs. f x \<noteq> NaN" "m \<noteq> NaN"
  shows "\<exists>r. foldl (\<lambda>mx v. let val = f v
                    in case mx of
                         None \<Rightarrow> if js_ge val val then Some val else None
                       | Some m \<Rightarrow> if js_lt m val then Some val else Some m) (Some m) xs = Some r
             \<and> r \<noteq> NaN \<and> js_le m r \<and> (\<forall>x\<in>set xs. js_le (f x) r) \<and> (r = m \<or> r \<in> f ` set xs)"
  using assms
proof (induction xs arbitrary: m)
  case Nil
  then show ?case by (simp add: js_le_refl_iff)
next
  case (Cons x xs)
  show ?case
  proof (cases "js_lt m (f x)")
    case True
    have fx: "f x \<noteq> NaN" using Cons.prems by simp
    obtain r where r: "foldl (\<lambda>mx v. let val = f v
                    in case mx of
                         None \<Rightarrow> if js_ge val val then Some val else None
                       | Some m \<Rightarrow> if js_lt m val then Some val else Some m) (Some (f x)) xs = Some r"
      "r \<noteq> NaN" "js_le (f x) r" "\<forall>x\<in>set xs. js_le (f x) r" "r = f x \<or> r \<in> f ` set xs"
      using Cons.IH [of "f x"] Cons.prems fx by auto
    have "js_le m r" using True r(3) js_lt_not_le js_le_trans by blast
    then show ?thesis using True r by (auto simp: Let_def)
  next
    case False
    have fx: "f x \<noteq> NaN" using Cons.prems by simp
    obtain r where r: "foldl (\<lambda>mx v. let val = f v
                    in case mx of
                         None \<Rightarrow> if js_ge val val then Some val else None
                       | Some m \<Rightarrow> if js_lt m val then Some val else Some m) (Some m) xs = Some r"
      "r \<noteq> NaN" "js_le m r" "\<forall>x\<in>set xs. js_le (f x) r" "r = m \<or> r \<in> f ` set xs"
      using Cons.IH [of m] Cons.prems by auto
    have "js_le (f x) m" using False fx Cons.prems(2) by (intro js_not_lt_le)
    then have "js_le (f x) r" using r(3) js_le_trans by blast
    then show ?thesis using False r by (auto simp: Let_def)
  qed
qed

lemma d3_max_bounds:
  assumes "\<forall>x\<in>set xs. f x \<noteq> NaN" "xs \<noteq> []"
  shows "\<exists>r. d3_max xs f = Some r \<and> (\<forall>x\<in>set xs. js_le (f x) r) \<and> r \<in> f ` set xs"
proof -
  obtain x ys where xs: "xs = x # ys" using assms(2) by (cases xs) auto
  have fx: "f x \<noteq> NaN" using assms(1) xs by simp
  from d3_max_fold [of ys f "f x"] assms(1) xs fx
  obtain r where "foldl (\<lambda>mx v. let val = f v
                    in case mx of
                         None \<Rightarrow> if js_ge val val then Some val else None
                       | Some m \<Rightarrow> if js_lt m val then Some val else Some m) (Some (f x)) ys = Some r"
    "js_le (f x) r" "\<forall>x\<in>set ys. js_le (f x) r" "r = f x \<or> r \<in> f ` set ys"
    by auto
  then show ?thesis using fx by (auto simp: d3_max_def xs js_le_refl_iff Let_def)
qed

lemma d3_min_fold:
  assumes "\<forall>x\<in>set xs. f x \<noteq> NaN" "m \<noteq> NaN"
  shows "\<exists>r. foldl (\<lambda>mn v. let val = f v
                    in case mn of
                         None \<Rightarrow> if js_ge val val then Some val else None
                       | Some m \<Rightarrow> if js_gt m val then Some val else Some m) (Some m) xs = Some r
             \<and> r \<noteq> NaN \<and> js_le r m \<and> (\<forall>x\<in>set xs. js_le r (f x)) \<and> (r = m \<or> r \<in> f ` set xs)"
  using assms
proof (induction xs arbitrary: m)
  case Nil
  then show ?case by (simp add: js_le_refl_iff)
next
  case (Cons x xs)
  show ?case
  proof (cases "js_gt m (f x)")
    case True
    have fx: "f x \<noteq> NaN" using Cons.prems by simp
    obtain r where r: "foldl (\<lambda>mn v. let val = f v
                    in case mn of
                         None \<Rightarrow> if js_ge val val then Some val else None
                       | Some m \<Rightarrow> if js_gt m val then Some val else Some m) (Some (f x)) xs = Some r"
      "r \<noteq> NaN" "js_le r (f x)" "\<forall>x\<in>set xs. js_le r (f x)" "r = f x \<or> r \<in> f ` set xs"
      using Cons.IH [of "f x"] Cons.prems fx by auto
    have "js_le r m" using True r(3) js_lt_not_le js_le_trans by blast
    then show ?thesis using True r by (auto simp: Let_def)
  next
    case False
    have fx: "f x \<noteq> NaN" using Cons.prems by simp
    obtain r where r: "foldl (\<lambda>mn v. let val = f v
                    in case mn of
                         None \<Rightarrow> if js_ge val val then Some val else None
                       | Some m \<Rightarrow> if js_gt m val then Some val else Some m) (Some m) xs = Some r"
      "r \<noteq> NaN" "js_le r m" "\<forall>x\<in>set xs. js_le r (f x)" "r = m \<or> r \<in> f ` set xs"
      using Cons.IH [of m] Cons.prems by auto
    have "js_le m (f x)" using False fx Cons.prems(2) by (intro js_not_lt_le)
    then have "js_le r (f x)" using r(3) js_le_trans by blast
    then show ?thesis using False r by (auto simp: Let_def)
  qed
qed

lemma d3_min_bounds:
  assumes "\<forall>x\<in>set xs. f x \<noteq> NaN" "xs \<noteq> []"
  shows "\<exists>r. d3_min xs f = Some r \<and> (\<forall>x\<in>set xs. js_le r (f x)) \<and> r \<in> f ` set xs"
proof -
  obtain x ys where xs: "xs = x # ys" using assms(2) by (cases xs) auto
  have fx: "f x \<noteq> NaN" using assms(1) xs by simp
  from d3_min_fold [of ys f "f x"] assms(1) xs fx
  obtain r where "foldl (\<lambda>mn v. let val = f v
                    in case mn of
                         None \<Rightarrow> if js_ge val val then Some val else None
                       | Some m \<Rightarrow> if js_gt m val then Some val else Some m) (Some (f x)) ys = Some r"
    "js_le r (f x)" "\<forall>x\<in>set ys. js_le r (f x)" "r = f x \<or> r \<in> f ` set ys"
    by auto
  then show ?thesis using fx by (auto simp: d3_min_def xs js_le_refl_iff Let_def)
qed

lemma js_add_mono:
  assumes "js_le a a'" "b \<le> b'"
  shows "js_le (js_add a (Fin b)) (js_add a' (Fin b'))"
proof (cases a)
  case (Fin x)
  show ?thesis
  proof (cases a')
    case (Fin x')
    then have "x + b \<le> x' + b'" using assms \<open>a = Fin x\<close> by simp
    then show ?thesis using \<open>a = Fin x\<close> \<open>a' = Fin x'\<close> by (simp add: rnd_mono)
  qed (use assms \<open>a = Fin x\<close> in simp_all)
next
  case NegInf
  then show ?thesis using assms by (cases a') simp_all
next
  case PosInf
  then show ?thesis using assms by (cases a') simp_all
qed (use assms in simp)

lemma js_div_count_mono:
  assumes "js_le a a'" "0 < n"
  shows "js_le (js_div a (Fin (real n))) (js_div a' (Fin (real n)))"
proof -
  have n: "real n \<noteq> 0" "\<not> real n < 0" "0 < real n" using assms(2) by simp_all
  show ?thesis
  proof (cases a)
    case (Fin x)
    show ?thesis
    proof (cases a')
      case (Fin x')
      then have "x / real n \<le> x' / real n"
        using assms(1) \<open>a = Fin x\<close> n by (simp add: divide_right_mono)
      then show ?thesis using \<open>a = Fin x\<close> \<open>a' = Fin x'\<close> n by (simp add: rnd_mono)
    qed (use assms \<open>a = Fin x\<close> n in \<open>simp_all add: signed_inf_def\<close>)
  next
    case NegInf
    then show ?thesis using assms n by (cases a') (simp_all add: signed_inf_def)
  next
    case PosInf
    then show ?thesis using assms n by (cases a') (simp_all add: signed_inf_def)
  qed (use assms in simp)
qed

lemma mean_fold:
  assumes "\<forall>x\<in>set xs. f x \<noteq> NaN"
  shows "foldl (\<lambda>(count, sum) v. let val = f v
                                     in if js_ge val val then (count + 1, js_add sum val)
                                        else (count, sum)) (c, s) xs
           = (c + length xs, foldl (\<lambda>sum v. js_add sum (f v)) s xs)"
  using assms by (induction xs arbitrary: c s) (simp_all add: js_le_refl_iff Let_def)

lemma d3_mean_sum:
  assumes "\<forall>x\<in>set xs. f x \<noteq> NaN" "xs \<noteq> []"
  shows "d3_mean xs f
           = Some (js_div (foldl (\<lambda>sum v. js_add sum (f v)) (Fin 0) xs) (Fin (real (length xs))))"
  using assms(2) by (simp add: d3_mean_def mean_fold [OF assms(1)])

lemma sums_mono:
  assumes "\<forall>d\<in>set xs. finite_ordered d" "js_le s s'"
  shows "js_le (foldl (\<lambda>sum v. js_add sum (minTemperature v)) s xs)
               (foldl (\<lambda>sum v. js_add sum (maxTemperature v)) s' xs)"
  using assms
proof (induction xs arbitrary: s s')
  case Nil
  then show ?case by simp
next
  case (Cons d xs)
  obtain a b where ab: "minTemperature d = Fin a" "maxTemperature d = Fin b" "a \<le> b"
    using Cons.prems(1) by (auto simp: finite_ordered_def split: jsnum.splits)
  have "js_le (js_add s (Fin a)) (js_add s' (Fin b))"
    using Cons.prems(2) ab(3) by (rule js_add_mono)
  then show ?case using Cons.IH [of "js_add s (Fin a)" "js_add s' (Fin b)"] Cons.prems(1) ab
    by simp
qed

lemma finite_ordered_not_NaN:
  assumes "finite_ordered d"
  shows "minTemperature d \<noteq> NaN" "maxTemperature d \<noteq> NaN"
    "js_le (minTemperature d) (maxTemperature d)"
  using assms by (auto simp: finite_ordered_def split: jsnum.splits)

lemma cell_bounds:
  assumes "\<forall>d\<in>set recs. finite_ordered d" "recs \<noteq> []"
  shows "\<exists>mn mx an ax.
           d3_min recs minTemperature = Some mn \<and> d3_max recs maxTemperature = Some mx
           \<and> d3_mean recs minTemperature = Some an \<and> d3_mean recs maxTemperature = Some ax
           \<and> js_le mn mx \<and> js_le an ax
           \<and> (\<forall>d\<in>set recs. js_le mn (minTemperature d) \<and> js_le (maxTemperature d) mx)"
proof -
  have nmin: "\<forall>d\<in>set recs. minTemperature d \<noteq> NaN" and nmax: "\<forall>d\<in>set recs. maxTemperature d \<noteq> NaN"
    using assms(1) finite_ordered_not_NaN by blast+
  obtain mn where mn: "d3_min recs minTemperature = Some mn"
    "\<forall>d\<in>set recs. js_le mn (minTemperature d)"
    using d3_min_bounds [OF nmin assms(2)] by blast
  obtain mx where mx: "d3_max recs maxTemperature = Some mx"
    "\<forall>d\<in>set recs. js_le (maxTemperature d) mx"
    using d3_max_bounds [OF nmax assms(2)] by blast
  obtain d where d: "d \<in> set recs" using assms(2) by (cases recs) auto
  have "js_le mn (minTemperature d)" "js_le (minTemperature d) (maxTemperature d)"
    "js_le (maxTemperature d) mx"
    using d mn(2) mx(2) assms(1) finite_ordered_not_NaN(3) by blast+
  then have le: "js_le mn mx" using js_le_trans by blast
  have len: "0 < length recs" using assms(2) by simp
  have "js_le (foldl (\<lambda>sum v. js_add sum (minTemperature v)) (Fin 0) recs)
              (foldl (\<lambda>sum v. js_add sum (maxTemperature v)) (Fin 0) recs)"
    using assms(1) by (intro sums_mono) simp_all
  then have "js_le (js_div (foldl (\<lambda>sum v. js_add sum (minTemperature v)) (Fin 0) recs)
                      (Fin (real (length recs))))
                   (js_div (foldl (\<lambda>sum v. js_add sum (maxTemperature v)) (Fin 0) recs)
                      (Fin (real (length recs))))"
    using len by (rule js_div_count_mono)
  then show ?thesis
    using mn mx le by (simp add: d3_mean_sum [OF nmin assms(2)] d3_mean_sum [OF nmax assms(2)])
qed

lemma set_sort_insert: "set (sort_insert cmp x ys) = insert x (set ys)"
  by (induction ys) auto

lemma set_js_sort: "set (js_sort cmp xs) = set xs"
  by (induction xs) (simp_all add: js_sort_def set_sort_insert)

lemmas num_eval = rnd_def quantum_def flog2_def pow2_def round_half_even_def Let_def compute_bitlen

lemma rnd_tenth: "rnd (1 / 10) = Fin (3602879701896397 / 36028797018963968)"
  by (simp add: num_eval)

lemma to_number_tenth:
  "to_number ''0.1'' = Fin (3602879701896397 / 36028797018963968)"
  "to_number ''-0.1'' = Fin (- (3602879701896397 / 36028797018963968))"
  by (simp_all add: str_eval rnd_tenth)

lemma tenth_filtered:
  "filterDataByYearRange CONFIG tenth_records
     = \<lparr>filteredData = tenth_records, years = [Some 2015]\<rparr>"
  by (simp add: filterDataByYearRange_def tenth_records_def CONFIG_def num_ge_def num_le_def
      set_values_def js_sort_def)

lemma rnd_tenth_sums:
  "rnd (3602879701896397 / 36028797018963968) = Fin (3602879701896397 / 36028797018963968)"
  "rnd (3602879701896397 / 18014398509481984) = Fin (3602879701896397 / 18014398509481984)"
  "rnd (10808639105689191 / 36028797018963968) = Fin (1351079888211149 / 4503599627370496)"
  "rnd (1351079888211149 / 13510798882111488) = Fin (7205759403792795 / 72057594037927936)"
  by (simp_all add: num_eval)

lemma tenth_output:
  "map (\<lambda>s. (minTemp s, avgMin s, avgMax s, maxTemp s))
     (aggregateMonthlyData tenth_records [Some 2015])
     = [(Some (Fin (- (3602879701896397 / 36028797018963968))),
         Some (Fin (- (7205759403792795 / 72057594037927936))),
         Some (Fin (7205759403792795 / 72057594037927936)),
         Some (Fin (3602879701896397 / 36028797018963968)))]"
proof -
  have d: "distinct [Some (2015::int)]" by simp
  show ?thesis
    unfolding aggregateMonthlyData_distinct [OF d]
    by (simp add: agg_eval tenth_records_def Let_def rnd_tenth_sums rnd_minus)
qed

section \<open>The colour scale\<close>

lemma basis_spline_high:
  assumes "js_ge t (Fin 1)"
  shows "basis_spline vals t = basis_spline vals (Fin 1)"
proof -
  have "\<not> js_le t (Fin 0)" using assms by (cases t) simp_all
  then show ?thesis using assms by (simp add: basis_spline_def)
qed

lemma basis_spline_low:
  assumes "js_le t (Fin 0)"
  shows "basis_spline vals t = basis_spline vals (Fin 0)"
  using assms by (simp add: basis_spline_def)

lemma interpolate_high:
  assumes "js_ge t (Fin 1)"
  shows "interpolateYlOrRd t = interpolateYlOrRd (Fin 1)"
  by (simp add: interpolateYlOrRd_def interpolateRgbBasis_def basis_spline_high [OF assms])

lemma interpolate_low:
  assumes "js_le t (Fin 0)"
  shows "interpolateYlOrRd t = interpolateYlOrRd (Fin 0)"
  by (simp add: interpolateYlOrRd_def interpolateRgbBasis_def basis_spline_low [OF assms])

lemma rnd_scale:
  "rnd (1 / 40) = Fin (3602879701896397 / 144115188075855872)"
  "rnd (18014398509481985 / 18014398509481984) = Fin 1"
  "rnd (90071992547409925 / 72057594037927936) = Fin (5 / 4)"
  by (simp_all add: num_eval)

lemma scale_factor:
  "js_div (Fin 1) (js_sub (Fin 40) (Fin 0)) = Fin (3602879701896397 / 144115188075855872)"
  by (simp add: js_sub_def rnd_scale)

lemma scale_position:
  "createColorScale CONFIG (Some x)
     = (if x = NaN then None
        else Some (interpolateYlOrRd
                     (js_mul (js_sub x (Fin 0)) (Fin (3602879701896397 / 144115188075855872)))))"
  by (simp add: createColorScale_def scaleSequential_def CONFIG_def strict_eq_def scale_factor)

lemma position_40:
  "js_mul (js_sub (Fin 40) (Fin 0)) (Fin (3602879701896397 / 144115188075855872)) = Fin 1"
  by (simp add: js_sub_def rnd_scale)

lemma position_50:
  "js_mul (js_sub (Fin 50) (Fin 0)) (Fin (3602879701896397 / 144115188075855872)) = Fin (5 / 4)"
  by (simp add: js_sub_def rnd_scale)

lemma position_high:
  assumes "js_ge x (Fin 40)"
  shows "js_ge (js_mul (js_sub x (Fin 0)) (Fin (3602879701896397 / 144115188075855872))) (Fin 1)"
proof (cases x)
  case (Fin a)
  then have a: "40 \<le> a" using assms by simp
  have s: "js_sub x (Fin 0) = rnd a" using Fin by (simp add: js_sub_def)
  have "js_le (rnd 40) (rnd a)" using a by (rule rnd_mono)
  then have r: "js_le (Fin 40) (rnd a)" by simp
  show ?thesis
  proof (cases "rnd a")
    case (Fin a')
    then have "40 \<le> a'" using r by simp
    then have "40 * (3602879701896397 / 144115188075855872)
                 \<le> a' * (3602879701896397 / 144115188075855872)"
      by (intro mult_right_mono) simp_all
    then have "js_le (rnd (40 * (3602879701896397 / 144115188075855872)))
                     (rnd (a' * (3602879701896397 / 144115188075855872)))"
      by (rule rnd_mono)
    then show ?thesis using Fin s by (simp add: rnd_scale)
  qed (use r s in \<open>simp_all add: signed_inf_def\<close>)
qed (use assms in \<open>simp_all add: js_sub_def signed_inf_def\<close>)

lemma position_low:
  assumes "js_le x (Fin 0)"
  shows "js_le (js_mul (js_sub x (Fin 0)) (Fin (3602879701896397 / 144115188075855872))) (Fin 0)"
proof (cases x)
  case (Fin a)
  then have a: "a \<le> 0" using assms by simp
  have s: "js_sub x (Fin 0) = rnd a" using Fin by (simp add: js_sub_def)
  have "js_le (rnd a) (rnd 0)" using a by (rule rnd_mono)
  then have r: "js_le (rnd a) (Fin 0)" by simp
  show ?thesis
  proof (cases "rnd a")
    case (Fin a')
    then have "a' \<le> 0" using r by simp
    then have "a' * (3602879701896397 / 144115188075855872) \<le> 0"
      by (intro mult_nonpos_nonneg) simp_all
    then have "js_le (rnd (a' * (3602879701896397 / 144115188075855872))) (rnd 0)"
      by (rule rnd_mono)
    then show ?thesis using Fin s by simp
  qed (use r s in \<open>simp_all add: signed_inf_def\<close>)
qed (use assms in \<open>simp_all add: js_sub_def signed_inf_def\<close>)

lemma rnd_eighths:
  "rnd (7 / 8) = Fin (7 / 8)" "rnd (1 / 8) = Fin (1 / 8)"
  by (simp_all add: num_eval)

lemma spline_at_1:
  "basis_spline (map fst YlOrRd) (Fin 1) = Fin 128"
  "basis_spline (map (fst \<circ> snd) YlOrRd) (Fin 1) = Fin 0"
  "basis_spline (map (snd \<circ> snd) YlOrRd) (Fin 1) = Fin 38"
  by (simp_all add: basis_spline_def basis_def YlOrRd_def js_sub_def element_def js_floor_def
      rnd_eighths Let_def)

lemma spline_at_0:
  "basis_spline (map fst YlOrRd) (Fin 0) = Fin 255"
  "basis_spline (map (fst \<circ> snd) YlOrRd) (Fin 0) = Fin 255"
  "basis_spline (map (snd \<circ> snd) YlOrRd) (Fin 0) = Fin 204"
  by (simp_all add: basis_spline_def basis_def YlOrRd_def js_sub_def element_def js_floor_def
      rnd_eighths Let_def)

lemma colour_at_1: "interpolateYlOrRd (Fin 1) = (128, 0, 38)"
  by (simp add: interpolateYlOrRd_def interpolateRgbBasis_def spline_at_1 clampi_def)

lemma colour_at_0: "interpolateYlOrRd (Fin 0) = (255, 255, 204)"
  by (simp add: interpolateYlOrRd_def interpolateRgbBasis_def spline_at_0 clampi_def)

section \<open>The store of a call\<close>

lemma load_groups_cong:
  assumes "st1 Data = st2 Data"
  shows "load_groups st1 = load_groups st2"
  unfolding load_groups_def assms ..

lemma month_step_Data: "fst (month_step y acc mi) Data = fst acc Data"
  by (cases acc; cases mi) (simp add: month_step_def Let_def)

lemma month_loop_Data: "fst (foldl (month_step y) acc ms) Data = fst acc Data"
  by (induction ms arbitrary: acc) (simp_all add: month_step_Data)

lemma year_loop_Data: "fst (foldl year_step acc ys) Data = fst acc Data"
  by (induction ys arbitrary: acc) (simp_all add: year_step_def month_loop_Data)

lemma aggregate_run_Data: "snd (aggregate_run st ys) Data = st Data"
proof -
  have "fst (foldl year_step (load_groups st, []) ys) Data = st Data"
    by (simp add: year_loop_Data load_groups_Data)
  then show ?thesis by (cases "foldl year_step (load_groups st, []) ys") (simp add: aggregate_run_def)
qed

lemma aggregate_run_cong:
  assumes "st1 Data = st2 Data"
  shows "fst (aggregate_run st1 ys) = fst (aggregate_run st2 ys)"
  using load_groups_cong [of st1 st2, OF assms] by (simp add: aggregate_run_def)

section \<open>Claims about parsing and filtering\<close>

lemma bad_row_date: "date_parse utc_host ''not a date'' = None"
  by (simp add: date_eval utc_host_def)

lemma parse_bad_row:
  "parseTemperatureData utc_host [bad_row]
     = [\<lparr>year = None, month = None, date = None,
         maxTemperature = Fin 0, minTemperature = NaN, day = None\<rparr>]"
  by (simp add: parseTemperatureData_def bad_row_def bad_row_date getFullYear_def getMonth_def
      getDate_def str_eval)

text \<open>
  C10. \<open>parseTemperatureData\<close> is total and returns one record per input row, so the
  output is as long as the input. A row whose date string is no date gets \<open>NaN\<close> as
  year, month and day. Every record with a \<open>NaN\<close> year fails both comparisons of the
  year filter and is not among the records \<open>filterDataByYearRange\<close> returns.
\<close>

theorem parse_total_nan_dates_excluded:
  "length (parseTemperatureData host rawData) = length rawData
   \<and> (\<forall>i<length rawData. date_parse host (csv_date (rawData ! i)) = None \<longrightarrow>
         year (parseTemperatureData host rawData ! i) = None
         \<and> month (parseTemperatureData host rawData ! i) = None
         \<and> day (parseTemperatureData host rawData ! i) = None)
   \<and> (\<forall>p\<in>set (parseTemperatureData host rawData). year p = None \<longrightarrow>
         \<not> num_ge (year p) (yearRange_start cfg) \<and> \<not> num_le (year p) (yearRange_end cfg)
         \<and> p \<notin> set (filteredData (filterDataByYearRange cfg (parseTemperatureData host rawData))))"
proof (intro conjI allI impI ballI)
  show "length (parseTemperatureData host rawData) = length rawData" by (rule parse_length)
next
  fix i assume "i < length rawData" "date_parse host (csv_date (rawData ! i)) = None"
  then show "year (parseTemperatureData host rawData ! i) = None"
    "month (parseTemperatureData host rawData ! i) = None"
    "day (parseTemperatureData host rawData ! i) = None"
    by (simp_all add: parse_nth getFullYear_def getMonth_def getDate_def)
next
  fix p assume "p \<in> set (parseTemperatureData host rawData)" "year p = None"
  then show "\<not> num_ge (year p) (yearRange_start cfg)" "\<not> num_le (year p) (yearRange_end cfg)"
    "p \<notin> set (filteredData (filterDataByYearRange cfg (parseTemperatureData host rawData)))"
    by (simp_all add: num_ge_def num_le_def filteredData_eq nan_year_not_in_range)
qed

theorem parse_total_nan_dates_excluded_witness:
  "length (parseTemperatureData utc_host [bad_row]) = 1
   \<and> date_parse utc_host (csv_date bad_row) = None
   \<and> year (parseTemperatureData utc_host [bad_row] ! 0) = None
   \<and> month (parseTemperatureData utc_host [bad_row] ! 0) = None
   \<and> day (parseTemperatureData utc_host [bad_row] ! 0) = None
   \<and> filteredData (filterDataByYearRange CONFIG (parseTemperatureData utc_host [bad_row])) = []"
proof -
  have d: "date_parse utc_host (csv_date bad_row) = None"
    by (simp add: bad_row_def bad_row_date)
  have "filteredData (filterDataByYearRange CONFIG (parseTemperatureData utc_host [bad_row])) = []"
    using parse_total_nan_dates_excluded [of utc_host "[bad_row]" CONFIG]
    by (simp add: parse_bad_row filteredData_eq split: if_splits)
  then show ?thesis
    using parse_total_nan_dates_excluded [of utc_host "[bad_row]" CONFIG] d by simp
qed

text \<open>
  C1, as the specification states it: a row with a malformed date or a non-numeric
  temperature makes the parse fail or is skipped, and is never turned into \<open>0\<close>. The
  code does neither. For the row \<open>("not a date", "", "abc")\<close> it returns a record: the
  date is invalid, year, month and day are \<open>NaN\<close>, the empty maximum has become \<open>0\<close>
  and the minimum is \<open>NaN\<close>.
\<close>

theorem parse_failure_counterexample:
  "parseTemperatureData utc_host
     [\<lparr>csv_date = ''not a date'', max_temperature = '''', min_temperature = ''abc''\<rparr>]
     = [\<lparr>year = None, month = None, date = None,
         maxTemperature = Fin 0, minTemperature = NaN, day = None\<rparr>]"
  using parse_bad_row by (simp add: bad_row_def)

text \<open>
  C1, amended. \<open>parseTemperatureData\<close> reports no failure and skips no row: it returns
  one record per input row, in order. A row whose date string is no date gets an invalid
  date and \<open>NaN\<close> as year, month and day. Each temperature is what unary plus makes of
  the field, which is \<open>NaN\<close> for a field whose first character after the white space
  cannot begin a numeric literal.
\<close>

theorem parse_keeps_every_row:
  "length (parseTemperatureData host rawData) = length rawData
   \<and> (\<forall>i<length rawData.
         (date_parse host (csv_date (rawData ! i)) = None \<longrightarrow>
            date (parseTemperatureData host rawData ! i) = None
            \<and> year (parseTemperatureData host rawData ! i) = None
            \<and> month (parseTemperatureData host rawData ! i) = None
            \<and> day (parseTemperatureData host rawData ! i) = None)
         \<and> maxTemperature (parseTemperatureData host rawData ! i)
             = to_number (max_temperature (rawData ! i))
         \<and> minTemperature (parseTemperatureData host rawData ! i)
             = to_number (min_temperature (rawData ! i)))
   \<and> (\<forall>s c r. trim s = c # r \<and> \<not> is_digit c
              \<and> c \<noteq> CHR ''+'' \<and> c \<noteq> CHR ''-'' \<and> c \<noteq> CHR ''.'' \<and> c \<noteq> CHR ''I''
         \<longrightarrow> to_number s = NaN)"
proof (intro conjI allI impI)
  show "length (parseTemperatureData host rawData) = length rawData" by (rule parse_length)
next
  fix i assume i: "i < length rawData"
  show "maxTemperature (parseTemperatureData host rawData ! i)
             = to_number (max_temperature (rawData ! i))"
    "minTemperature (parseTemperatureData host rawData ! i)
             = to_number (min_temperature (rawData ! i))"
    using i by (simp_all add: parse_nth)
  assume "date_parse host (csv_date (rawData ! i)) = None"
  then show "date (parseTemperatureData host rawData ! i) = None"
    "year (parseTemperatureData host rawData ! i) = None"
    "month (parseTemperatureData host rawData ! i) = None"
    "day (parseTemperatureData host rawData ! i) = None"
    using i by (simp_all add: parse_nth getFullYear_def getMonth_def getDate_def)
next
  fix s c r
  assume "trim s = c # r \<and> \<not> is_digit c
              \<and> c \<noteq> CHR ''+'' \<and> c \<noteq> CHR ''-'' \<and> c \<noteq> CHR ''.'' \<and> c \<noteq> CHR ''I''"
  then show "to_number s = NaN" using to_number_not_numeric by blast
qed

theorem parse_keeps_every_row_witness:
  "length (parseTemperatureData utc_host [bad_row]) = 1
   \<and> date_parse utc_host (csv_date bad_row) = None
   \<and> date (parseTemperatureData utc_host [bad_row] ! 0) = None
   \<and> year (parseTemperatureData utc_host [bad_row] ! 0) = None
   \<and> minTemperature (parseTemperatureData utc_host [bad_row] ! 0) = to_number ''abc''
   \<and> trim ''abc'' = ''abc'' \<and> \<not> is_digit (CHR ''a'')
   \<and> to_number ''abc'' = NaN"
proof -
  have d: "date_parse utc_host (csv_date bad_row) = None"
    by (simp add: bad_row_def bad_row_date)
  have t: "trim ''abc'' = ''abc''" "\<not> is_digit (CHR ''a'')"
    by (simp_all add: trim_def is_ws_def is_digit_def digit_of_def)
  have m: "min_temperature bad_row = ''abc''" by (simp add: bad_row_def)
  from parse_keeps_every_row [of utc_host "[bad_row]"]
  have "to_number ''abc'' = NaN"
     and "date (parseTemperatureData utc_host [bad_row] ! 0) = None"
     and "year (parseTemperatureData utc_host [bad_row] ! 0) = None"
     and "minTemperature (parseTemperatureData utc_host [bad_row] ! 0) = to_number ''abc''"
    using d t m by auto
  then show ?thesis using d t by (simp add: parse_length)
qed

text \<open>
  C2. \<open>filterDataByYearRange\<close> returns exactly the records whose year lies in the
  inclusive range of the configuration (2008 to 2017 in \<open>CONFIG\<close>), in input order.
  Its list of years holds exactly the years of the returned records, strictly ascending
  and without duplicates. On the empty input it returns no records and no years.
\<close>

theorem filter_year_range:
  "filteredData (filterDataByYearRange cfg data)
     = filter (\<lambda>d. \<exists>y. year d = Some y \<and> yearRange_start cfg \<le> y \<and> y \<le> yearRange_end cfg) data
   \<and> set (years (filterDataByYearRange cfg data))
       = year ` set (filteredData (filterDataByYearRange cfg data))
   \<and> sorted_wrt num_lt (years (filterDataByYearRange cfg data))
   \<and> distinct (years (filterDataByYearRange cfg data))
   \<and> filterDataByYearRange cfg [] = \<lparr>filteredData = [], years = []\<rparr>
   \<and> yearRange_start CONFIG = 2008 \<and> yearRange_end CONFIG = 2017"
proof -
  have "filter (in_range cfg) data
          = filter (\<lambda>d. \<exists>y. year d = Some y \<and> yearRange_start cfg \<le> y \<and> y \<le> yearRange_end cfg) data"
    by (rule filter_cong) (simp_all add: in_range_iff)
  moreover have "filterDataByYearRange cfg [] = \<lparr>filteredData = [], years = []\<rparr>"
    by (simp add: filterDataByYearRange_def set_values_def js_sort_def)
  ultimately show ?thesis
    using years_ascending [of cfg data] years_distinct [of cfg data]
    by (simp add: filteredData_eq years_set CONFIG_def)
qed

theorem filter_year_range_witness:
  "filteredData (filterDataByYearRange CONFIG sample_records)
     = [sample_records ! 0, sample_records ! 2, sample_records ! 3]
   \<and> years (filterDataByYearRange CONFIG sample_records) = [Some 2009, Some 2015]
   \<and> sorted_wrt num_lt [Some 2009, Some 2015]"
proof -
  have f: "filteredData (filterDataByYearRange CONFIG sample_records)
     = [sample_records ! 0, sample_records ! 2, sample_records ! 3]"
    using filter_year_range [of CONFIG sample_records]
    by (simp add: sample_records_def CONFIG_def)
  have y: "years (filterDataByYearRange CONFIG sample_records) = [Some 2009, Some 2015]"
    by (simp add: years_eq in_range_def num_ge_def num_le_def sample_records_def CONFIG_def
        set_values_def num_key_def)
  show ?thesis
    using filter_year_range [of CONFIG sample_records] f y by simp
qed

section \<open>Claims about the aggregation\<close>

text \<open>
  C3. For the records and the years that \<open>filterDataByYearRange\<close> returns,
  \<open>aggregateMonthlyData\<close> emits exactly one object for each year and month index (0 to
  11) with at least one record, and none for a pair without records; every object has a
  month index from 0 to 11; so the length of the output is the number of pairs with
  records.
\<close>

theorem aggregate_sparse_output:
  "(\<forall>y mi. mi < 12 \<longrightarrow>
       length (filter (\<lambda>s. year s = y \<and> month s = Some (int mi))
                 (aggregateMonthlyData (filteredData (filterDataByYearRange cfg data))
                    (years (filterDataByYearRange cfg data))))
         = (if records_of (filteredData (filterDataByYearRange cfg data)) y (Some (int mi)) = []
            then 0 else 1))
   \<and> (\<forall>s\<in>set (aggregateMonthlyData (filteredData (filterDataByYearRange cfg data))
                   (years (filterDataByYearRange cfg data))).
         \<exists>mi<12. month s = Some (int mi))
   \<and> length (aggregateMonthlyData (filteredData (filterDataByYearRange cfg data))
               (years (filterDataByYearRange cfg data)))
       = card {(y, mi). mi < (12::nat)
                 \<and> records_of (filteredData (filterDataByYearRange cfg data)) y (Some (int mi)) \<noteq> []}"
proof -
  let ?r = "filterDataByYearRange cfg data"
  have d: "distinct (years ?r)" by (rule years_distinct)
  have y: "year ` set (filteredData ?r) \<subseteq> set (years ?r)" by (simp add: filtered_years)
  show ?thesis
    using sparse_count [OF d y] sparse_length [OF d y] output_months [OF d]
    by blast
qed

theorem aggregate_sparse_output_witness:
  "length (aggregateMonthlyData (filteredData (filterDataByYearRange CONFIG sample_records))
             (years (filterDataByYearRange CONFIG sample_records))) = 2
   \<and> records_of (filteredData (filterDataByYearRange CONFIG sample_records))
         (Some 2015) (Some (int 0)) \<noteq> []
   \<and> length (filter (\<lambda>s. year s = Some 2015 \<and> month s = Some (int 0))
         (aggregateMonthlyData (filteredData (filterDataByYearRange CONFIG sample_records))
            (years (filterDataByYearRange CONFIG sample_records)))) = 1
   \<and> records_of (filteredData (filterDataByYearRange CONFIG sample_records))
         (Some 2015) (Some (int 1)) = []
   \<and> length (filter (\<lambda>s. year s = Some 2015 \<and> month s = Some (int 1))
         (aggregateMonthlyData (filteredData (filterDataByYearRange CONFIG sample_records))
            (years (filterDataByYearRange CONFIG sample_records)))) = 0"
proof -
  note t = aggregate_sparse_output [of CONFIG sample_records]
  have a: "length (filter (\<lambda>s. year s = Some 2015 \<and> month s = Some (int 0))
         (aggregateMonthlyData (filteredData (filterDataByYearRange CONFIG sample_records))
            (years (filterDataByYearRange CONFIG sample_records)))) = 1"
    using t [THEN conjunct1, rule_format, of 0 "Some 2015"] sample_records_of(1) by simp
  have b: "length (filter (\<lambda>s. year s = Some 2015 \<and> month s = Some (int 1))
         (aggregateMonthlyData (filteredData (filterDataByYearRange CONFIG sample_records))
            (years (filterDataByYearRange CONFIG sample_records)))) = 0"
    using t [THEN conjunct1, rule_format, of 1 "Some 2015"] sample_records_of(2) by simp
  show ?thesis
    using a b sample_records_of by (simp add: sample_pipeline)
qed

text \<open>
  C5. The objects that \<open>aggregateMonthlyData\<close> returns are in year-major, month-minor
  order: strictly ascending by year, and within a year by month index. The output is a
  function of the records and the years alone, so the order is the same on every run.
\<close>

theorem aggregate_year_major_order:
  "sorted_wrt year_month_lt
     (aggregateMonthlyData (filteredData (filterDataByYearRange cfg data))
        (years (filterDataByYearRange cfg data)))"
  by (rule aggregate_sorted) (rule years_ascending, rule years_distinct)

theorem aggregate_year_major_order_witness:
  "sorted_wrt year_month_lt
     (aggregateMonthlyData (filteredData (filterDataByYearRange CONFIG sample_records))
        (years (filterDataByYearRange CONFIG sample_records)))
   \<and> map (\<lambda>s. (year s, month s))
         (aggregateMonthlyData (filteredData (filterDataByYearRange CONFIG sample_records))
            (years (filterDataByYearRange CONFIG sample_records)))
       = [(Some 2009, Some 6), (Some 2015, Some 0)]"
  using aggregate_year_major_order [of CONFIG sample_records]
  by (simp add: sample_pipeline)

text \<open>
  C6. In the pipeline from the rows of the file, the \<open>dailyData\<close> of every emitted
  object holds exactly the parsed records of its year and month (as many as there are rows
  in that pair, and at least one), in ascending order of the day; records of the same day
  keep their input order.
\<close>

theorem daily_records_sorted:
  "\<forall>s\<in>set (aggregateMonthlyData
              (filteredData (filterDataByYearRange cfg (parseTemperatureData host rawData)))
              (years (filterDataByYearRange cfg (parseTemperatureData host rawData)))).
      dailyData s = sort_key (\<lambda>d. num_key (day d))
                      (records_of (parseTemperatureData host rawData) (year s) (month s))
      \<and> mset (dailyData s) = mset (records_of (parseTemperatureData host rawData) (year s) (month s))
      \<and> length (dailyData s) = length (records_of (parseTemperatureData host rawData) (year s) (month s))
      \<and> dailyData s \<noteq> []
      \<and> sorted_wrt day_le (dailyData s)"
proof
  let ?parsed = "parseTemperatureData host rawData"
  let ?r = "filterDataByYearRange cfg ?parsed"
  fix s assume s: "s \<in> set (aggregateMonthlyData (filteredData ?r) (years ?r))"
  let ?recs = "records_of ?parsed (year s) (month s)"
  from output_months [OF years_distinct s]
  have y: "year s \<in> set (years ?r)"
    and ne: "records_of (filteredData ?r) (year s) (month s) \<noteq> []"
    and dd: "dailyData s = js_sort (\<lambda>a b. num_minus (day a) (day b))
                              (records_of (filteredData ?r) (year s) (month s))"
    by auto
  have eq: "records_of (filteredData ?r) (year s) (month s) = ?recs"
    using y by (rule records_of_filtered)
  have days: "\<forall>d\<in>set ?recs. day d \<noteq> None"
    using parse_filtered_days [of _ cfg host rawData] unfolding eq [symmetric]
    by (auto simp: records_of_def)
  have dd': "dailyData s = sort_key (\<lambda>d. num_key (day d)) ?recs"
    unfolding dd eq using days by (rule js_sort_by_day)
  moreover have "sorted_wrt day_le (sort_key (\<lambda>d. num_key (day d)) ?recs)"
    using days by (rule sorted_by_day)
  moreover have "?recs \<noteq> []" using ne eq by simp
  moreover have "set (sort_key (\<lambda>d. num_key (day d)) ?recs) = set ?recs"
    by (rule set_sort)
  then have "sort_key (\<lambda>d. num_key (day d)) ?recs \<noteq> []"
    using \<open>?recs \<noteq> []\<close> by (metis set_empty)
  ultimately show "dailyData s = sort_key (\<lambda>d. num_key (day d)) ?recs
      \<and> mset (dailyData s) = mset ?recs
      \<and> length (dailyData s) = length ?recs
      \<and> dailyData s \<noteq> []
      \<and> sorted_wrt day_le (dailyData s)"
    by (simp del: sort_key_simps)
qed

theorem daily_records_sorted_witness:
  "parseTemperatureData utc_host (rev january_rows) = [day16, day15]
   \<and> map dailyData
         (aggregateMonthlyData
            (filteredData (filterDataByYearRange CONFIG
               (parseTemperatureData utc_host (rev january_rows))))
            (years (filterDataByYearRange CONFIG
               (parseTemperatureData utc_host (rev january_rows)))))
       = [[day15, day16]]
   \<and> [day15, day16]
       = sort_key (\<lambda>d. num_key (day d)) (records_of [day16, day15] (Some 2015) (Some 0))
   \<and> sorted_wrt day_le [day15, day16]"
proof -
  note t = daily_records_sorted [of CONFIG utc_host "rev january_rows",
      unfolded parse_reversed pipeline_reversed]
  from t have e: "[day15, day16]
       = sort_key (\<lambda>d. num_key (day d)) (records_of [day16, day15] (Some 2015) (Some 0))"
    and o: "day_le day15 day16" by simp_all
  have m: "map dailyData
         (aggregateMonthlyData
            (filteredData (filterDataByYearRange CONFIG
               (parseTemperatureData utc_host (rev january_rows))))
            (years (filterDataByYearRange CONFIG
               (parseTemperatureData utc_host (rev january_rows)))))
       = [[day15, day16]]"
    by (simp add: parse_reversed pipeline_reversed)
  have s: "sorted_wrt day_le [day15, day16]" using o by simp
  show ?thesis by (intro conjI) (rule parse_reversed, rule m, rule e, rule s)
qed




section \<open>Claims about the statistics, the colour scale and repeated runs\<close>

text \<open>
  C4, as the specification states it: when every record has
  \<open>minTemperature \<le> maxTemperature\<close>, every emitted object has
  \<open>minTemp \<le> avgMin \<le> avgMax \<le> maxTemp\<close>. The means are binary64 sums divided by the
  count, and rounding takes them out of that range: for three records with minimum
  \<open>-0.1\<close> and maximum \<open>0.1\<close>, \<open>0.1 + 0.1 + 0.1\<close> is \<open>0.30000000000000004\<close> and its third
  is \<open>0.10000000000000002\<close>, so \<open>avgMax\<close> is above \<open>maxTemp = 0.1\<close>, and \<open>avgMin\<close> is
  below \<open>minTemp = -0.1\<close>.
\<close>

theorem mean_chain_counterexample:
  "to_number ''0.1'' = Fin (3602879701896397 / 36028797018963968)
   \<and> to_number ''-0.1'' = Fin (- (3602879701896397 / 36028797018963968))
   \<and> map (\<lambda>d. (minTemperature d, maxTemperature d)) tenth_records
       = replicate 3 (Fin (- (3602879701896397 / 36028797018963968)),
                      Fin (3602879701896397 / 36028797018963968))
   \<and> map (\<lambda>s. (minTemp s, avgMin s, avgMax s, maxTemp s))
         (aggregateMonthlyData (filteredData (filterDataByYearRange CONFIG tenth_records))
            (years (filterDataByYearRange CONFIG tenth_records)))
       = [(Some (Fin (- (3602879701896397 / 36028797018963968))),
           Some (Fin (- (7205759403792795 / 72057594037927936))),
           Some (Fin (7205759403792795 / 72057594037927936)),
           Some (Fin (3602879701896397 / 36028797018963968)))]
   \<and> js_lt (Fin (- (7205759403792795 / 72057594037927936)))
            (Fin (- (3602879701896397 / 36028797018963968)))
   \<and> js_lt (Fin (3602879701896397 / 36028797018963968))
            (Fin (7205759403792795 / 72057594037927936))"
  by (simp add: to_number_tenth tenth_filtered tenth_output)
     (simp add: tenth_records_def numeral_3_eq_3)

text \<open>
  C4, amended. When every record has finite temperatures with
  \<open>minTemperature \<le> maxTemperature\<close>, every emitted object has all four statistics,
  \<open>minTemp \<le> maxTemp\<close> and \<open>avgMin \<le> avgMax\<close>; \<open>minTemp\<close> is at most the minimum and
  \<open>maxTemp\<close> at least the maximum of each of its daily records.
\<close>

theorem summary_bounds:
  assumes "\<forall>d\<in>set data. finite_ordered d"
  shows "\<forall>s\<in>set (aggregateMonthlyData (filteredData (filterDataByYearRange cfg data))
                   (years (filterDataByYearRange cfg data))).
           \<exists>mn mx an ax.
             minTemp s = Some mn \<and> maxTemp s = Some mx
             \<and> avgMin s = Some an \<and> avgMax s = Some ax
             \<and> js_le mn mx \<and> js_le an ax
             \<and> (\<forall>d\<in>set (dailyData s).
                   js_le mn (minTemperature d) \<and> js_le (maxTemperature d) mx)"
proof
  let ?r = "filterDataByYearRange cfg data"
  fix s assume "s \<in> set (aggregateMonthlyData (filteredData ?r) (years ?r))"
  then obtain p where ne: "nonempty_cell (filteredData ?r) p"
    and s: "s = cell_of (fst p) (snd p)
                  (records_of (filteredData ?r) (fst p) (Some (int (fst (snd p)))))"
    unfolding aggregateMonthlyData_closed_form [OF years_distinct] by auto
  let ?recs = "records_of (filteredData ?r) (fst p) (Some (int (fst (snd p))))"
  have sub: "set ?recs \<subseteq> set data" by (auto simp: records_of_def filteredData_eq)
  then have fo: "\<forall>d\<in>set ?recs. finite_ordered d" using assms by blast
  have "?recs \<noteq> []" using ne by (simp add: nonempty_cell_def)
  from cell_bounds [OF fo this] show "\<exists>mn mx an ax.
             minTemp s = Some mn \<and> maxTemp s = Some mx
             \<and> avgMin s = Some an \<and> avgMax s = Some ax
             \<and> js_le mn mx \<and> js_le an ax
             \<and> (\<forall>d\<in>set (dailyData s).
                   js_le mn (minTemperature d) \<and> js_le (maxTemperature d) mx)"
    unfolding s by (simp add: cell_of_def set_js_sort)
qed

theorem summary_bounds_witness:
  "map finite_ordered tenth_records = [True, True, True]
   \<and> map (\<lambda>s. (minTemp s, avgMin s, avgMax s, maxTemp s))
         (aggregateMonthlyData (filteredData (filterDataByYearRange CONFIG tenth_records))
            (years (filterDataByYearRange CONFIG tenth_records)))
       = [(Some (Fin (- (3602879701896397 / 36028797018963968))),
           Some (Fin (- (7205759403792795 / 72057594037927936))),
           Some (Fin (7205759403792795 / 72057594037927936)),
           Some (Fin (3602879701896397 / 36028797018963968)))]
   \<and> js_le (Fin (- (3602879701896397 / 36028797018963968)))
            (Fin (3602879701896397 / 36028797018963968))
   \<and> js_le (Fin (- (7205759403792795 / 72057594037927936)))
            (Fin (7205759403792795 / 72057594037927936))"
proof -
  have h: "\<forall>d\<in>set tenth_records. finite_ordered d"
    by (simp add: tenth_records_def finite_ordered_def)
  have m: "map finite_ordered tenth_records = [True, True, True]"
    by (simp add: tenth_records_def finite_ordered_def)
  show ?thesis
    using summary_bounds [OF h, of CONFIG] m
    by (simp add: tenth_filtered tenth_output)
qed

text \<open>
  C8. The colour function of \<open>createColorScale\<close> for the domain 0 to 40 gives the same
  colour for 40 and for the out-of-range value 50; every value of 40 or more gets the
  colour of 40, \<open>rgb(128, 0, 38)\<close>, and every value of 0 or less the colour of 0,
  \<open>rgb(255, 255, 204)\<close>. The sequential scale does not clamp (50 is mapped to the
  position 1.25); the spline interpolator does.
\<close>

theorem color_scale_clamps:
  "createColorScale CONFIG (Some (Fin 40)) = createColorScale CONFIG (Some (Fin 50))
   \<and> (\<forall>x. js_ge x (Fin 40) \<longrightarrow>
          createColorScale CONFIG (Some x) = createColorScale CONFIG (Some (Fin 40)))
   \<and> (\<forall>x. js_le x (Fin 0) \<longrightarrow>
          createColorScale CONFIG (Some x) = createColorScale CONFIG (Some (Fin 0)))
   \<and> createColorScale CONFIG (Some (Fin 40)) = Some (128, 0, 38)
   \<and> createColorScale CONFIG (Some (Fin 0)) = Some (255, 255, 204)"
proof -
  have hi: "createColorScale CONFIG (Some x) = Some (128, 0, 38)" if "js_ge x (Fin 40)" for x
  proof -
    have "x \<noteq> NaN" using that by (cases x) simp_all
    then show ?thesis
      using interpolate_high [OF position_high [OF that]]
      by (simp add: scale_position colour_at_1)
  qed
  have lo: "createColorScale CONFIG (Some x) = Some (255, 255, 204)" if "js_le x (Fin 0)" for x
  proof -
    have "x \<noteq> NaN" using that by (cases x) simp_all
    then show ?thesis
      using interpolate_low [OF position_low [OF that]]
      by (simp add: scale_position colour_at_0)
  qed
  have "js_ge (Fin 40) (Fin 40)" "js_ge (Fin 50) (Fin 40)" "js_le (Fin 0) (Fin 0)" by simp_all
  then show ?thesis using hi lo by metis
qed

theorem color_scale_clamps_witness:
  "js_ge (Fin 50) (Fin 40)
   \<and> createColorScale CONFIG (Some (Fin 50)) = Some (128, 0, 38)
   \<and> js_le (Fin (- 5)) (Fin 0)
   \<and> createColorScale CONFIG (Some (Fin (- 5))) = Some (255, 255, 204)
   \<and> js_mul (js_sub (Fin 50) (Fin 0)) (js_div (Fin 1) (js_sub (Fin 40) (Fin 0))) = Fin (5 / 4)"
proof -
  have a: "js_ge (Fin 50) (Fin 40)" and b: "js_le (Fin (- 5)) (Fin 0)" by simp_all
  from color_scale_clamps a b
  have "createColorScale CONFIG (Some (Fin 50)) = Some (128, 0, 38)"
    and "createColorScale CONFIG (Some (Fin (- 5))) = Some (255, 255, 204)"
    by metis+
  then show ?thesis using a b by (simp add: scale_factor position_50)
qed

text \<open>
  C9. A call of \<open>aggregateMonthlyData\<close> reads nothing but the array of records and the
  list of years: its output is the same in any two stores that agree on the input array,
  whatever arrays earlier calls have left behind, and it takes no clock, time zone or
  random source (unlike \<open>parseTemperatureData\<close>, the model has no host parameter). The
  in-place sort changes only the arrays that \<open>d3.group\<close> has created in the call, so the
  input array is afterwards what it was, and a second call on the store left by the
  first returns the identical output.
\<close>

theorem aggregate_idempotent:
  "(st1 Data = st2 Data \<longrightarrow> fst (aggregate_run st1 ys) = fst (aggregate_run st2 ys))
   \<and> snd (aggregate_run st ys) Data = st Data
   \<and> fst (aggregate_run (snd (aggregate_run st ys)) ys) = fst (aggregate_run st ys)
   \<and> aggregateMonthlyData (st Data) ys = fst (aggregate_run st ys)"
proof (intro conjI impI)
  assume "st1 Data = st2 Data"
  then show "fst (aggregate_run st1 ys) = fst (aggregate_run st2 ys)"
    by (rule aggregate_run_cong)
next
  show "snd (aggregate_run st ys) Data = st Data" by (rule aggregate_run_Data)
  then show "fst (aggregate_run (snd (aggregate_run st ys)) ys) = fst (aggregate_run st ys)"
    by (rule aggregate_run_cong)
  show "aggregateMonthlyData (st Data) ys = fst (aggregate_run st ys)"
    unfolding aggregateMonthlyData_def by (rule aggregate_run_cong) simp
qed

theorem aggregate_idempotent_witness:
  "stale_store Data = tenth_records
   \<and> stale_store (Group (Some 2015) (Some 0)) = sample_records
   \<and> fst (aggregate_run stale_store [Some 2015, Some 2015])
       = aggregateMonthlyData tenth_records [Some 2015, Some 2015]
   \<and> fst (aggregate_run (snd (aggregate_run stale_store [Some 2015, Some 2015]))
            [Some 2015, Some 2015])
       = aggregateMonthlyData tenth_records [Some 2015, Some 2015]"
proof -
  have d: "stale_store Data = tenth_records"
    and g: "stale_store (Group (Some 2015) (Some 0)) = sample_records"
    by (simp_all add: stale_store_def)
  show ?thesis
    using aggregate_idempotent [of stale_store stale_store "[Some 2015, Some 2015]" stale_store] d g
    by simp
qed

end
